(* ===== verification/Prelude.thy ===== *)
theory Prelude
  imports Main "HOL-Library.Word" "HOL-Library.Monad_Syntax" "HOL-Library.Sublist"
begin

text \<open>
  Shared ground of the development: C memory seen as lists, C strings, the pieces of
  \<open>printf\<close> and \<open>strtoull\<close> the firmware uses, and the lemma collections the
  component theories build on.

  Conventions used by every theory:
  \<^item> A C object (array, malloc'ed block, flash sector) is the list of its bytes. Text is a
    \<open>string\<close>, raw packet data is a list of \<open>8 word\<close>.
  \<^item> An operation that can execute undefined behaviour (an access outside an object, a NULL
    dereference, a double free, a string function on unterminated memory) returns an
    \<open>option\<close>: \<open>None\<close> is that behaviour, \<open>Some\<close> carries the result.
  \<^item> An error code of the firmware is an ordinary value inside the result.
\<close>

unbundle bit_operations_syntax

named_theorems mem_simps \<open>reads and writes of C memory\<close>
named_theorems cstr_simps \<open>C strings inside C memory\<close>
named_theorems find_simps \<open>strchr and strstr\<close>
named_theorems fmt_simps \<open>number formatting and parsing\<close>

type_synonym u8 = "8 word"
type_synonym u16 = "16 word"
type_synonym u32 = "32 word"
type_synonym u64 = "64 word"

abbreviation NUL :: char where "NUL \<equiv> CHR 0x00"

text \<open>The ranges of the C integer types.\<close>

lemma unat_u8_lt: "unat (w :: u8) < 256"
  using unsigned_less[of w] by simp

lemma unat_u16_lt: "unat (w :: u16) < 65536"
  using unsigned_less[of w] by simp

lemma unat_u32_lt: "unat (w :: u32) < 4294967296"
  using unsigned_less[of w] by simp

lemma unat_u64_lt: "unat (w :: u64) < 18446744073709551616"
  using unsigned_less[of w] by simp

lemma unat_ucast: "unat (ucast (w :: 'a::len word) :: 'b::len word) = unat w mod 2 ^ LENGTH('b)"
  by (simp add: unsigned_ucast_eq take_bit_eq_mod)

section \<open>Results that may be undefined\<close>

text \<open>Elimination rules that take a computation ending in \<open>Some\<close> apart, step by step.\<close>

lemma bind_SomeE:
  "m \<bind> f = Some y \<Longrightarrow> (\<And>x. m = Some x \<Longrightarrow> f x = Some y \<Longrightarrow> P) \<Longrightarrow> P"
  by (auto simp: bind_eq_Some_conv)

lemma if_SomeE:
  "(if b then t else e) = Some y \<Longrightarrow> (b \<Longrightarrow> t = Some y \<Longrightarrow> P) \<Longrightarrow> (\<not> b \<Longrightarrow> e = Some y \<Longrightarrow> P) \<Longrightarrow> P"
  by (auto split: if_split_asm)

lemma case_pairE:
  "(case p of (a, b) \<Rightarrow> f a b) = Some y \<Longrightarrow> (\<And>a b. p = (a, b) \<Longrightarrow> f a b = Some y \<Longrightarrow> P) \<Longrightarrow> P"
  by (cases p) auto

lemma case_optE:
  "(case m of None \<Rightarrow> d | Some x \<Rightarrow> f x) = Some y \<Longrightarrow> (m = None \<Longrightarrow> d = Some y \<Longrightarrow> P) \<Longrightarrow>
   (\<And>x. m = Some x \<Longrightarrow> f x = Some y \<Longrightarrow> P) \<Longrightarrow> P"
  by (cases m) auto

lemmas some_elims = bind_SomeE if_SomeE case_pairE case_optE

lemma case_opt: "(case a of None \<Rightarrow> Some d | Some x \<Rightarrow> f x) = Some r \<Longrightarrow> r = d \<or> (\<exists>x. f x = Some r)"
  by (cases a) auto

section \<open>C memory\<close>

text \<open>A check whose failure is undefined behaviour.\<close>

definition require :: "bool \<Rightarrow> unit option" where
  "require b = (if b then Some () else None)"

lemma require_simps [simp]: "require True = Some ()" "require False = None"
  by (simp_all add: require_def)

lemma require_eq_Some [simp]: "require b = Some u \<longleftrightarrow> b"
  by (simp add: require_def)

lemma require_bind [mem_simps]: "b \<Longrightarrow> require b \<bind> f = f ()"
  by (simp add: require_def)

text \<open>Read one cell; read \<open>n\<close> cells from an offset.\<close>

definition rd :: "'a list \<Rightarrow> nat \<Rightarrow> 'a option" where
  "rd buf i = (if i < length buf then Some (buf ! i) else None)"

definition rd_bytes :: "'a list \<Rightarrow> nat \<Rightarrow> nat \<Rightarrow> 'a list option" where
  "rd_bytes buf off n = (if off + n \<le> length buf then Some (take n (drop off buf)) else None)"

text \<open>\<open>memcpy\<close> (or \<open>memset\<close>, with a replicated list) of \<open>src\<close> into \<open>buf\<close> at an offset.\<close>

definition blit :: "'a list \<Rightarrow> nat \<Rightarrow> 'a list \<Rightarrow> 'a list option" where
  "blit buf off src =
     (if off + length src \<le> length buf
      then Some (take off buf @ src @ drop (off + length src) buf) else None)"

definition wr :: "'a list \<Rightarrow> nat \<Rightarrow> 'a \<Rightarrow> 'a list option" where
  "wr buf i x = (if i < length buf then Some (buf[i := x]) else None)"

lemma rd_Some [mem_simps]: "i < length buf \<Longrightarrow> rd buf i = Some (buf ! i)"
  by (simp add: rd_def)

lemma rd_append_right [mem_simps]: "rd (xs @ ys) (length xs) = rd ys 0"
  by (simp add: rd_def nth_append)

lemma blit_length: "blit buf off src = Some buf' \<Longrightarrow> length buf' = length buf"
  by (auto simp: blit_def split: if_splits)

lemma wr_length: "wr buf i x = Some buf' \<Longrightarrow> length buf' = length buf"
  by (auto simp: wr_def split: if_splits)

lemma blit_0 [mem_simps]:
  "length src \<le> length buf \<Longrightarrow> blit buf 0 src = Some (src @ drop (length src) buf)"
  by (simp add: blit_def)

lemma blit_append [mem_simps]:
  "length xs = off \<Longrightarrow> length src \<le> length ys \<Longrightarrow>
   blit (xs @ ys) off src = Some (xs @ src @ drop (length src) ys)"
  by (auto simp: blit_def)

lemma blit_at_end [mem_simps]:
  "length buf = off + length src \<Longrightarrow> blit buf off src = Some (take off buf @ src)"
  by (simp add: blit_def)

lemma blit_None_iff: "blit buf off src = None \<longleftrightarrow> length buf < off + length src"
  by (auto simp: blit_def)

section \<open>C strings\<close>

text \<open>
  \<open>c_str m\<close> is the string that starts at the first cell of \<open>m\<close>: the cells before the
  first NUL, or \<open>None\<close> when the object ends before one is found.
\<close>

fun c_str :: "string \<Rightarrow> string option" where
  "c_str [] = None"
| "c_str (c # cs) = (if c = NUL then Some [] else map_option (Cons c) (c_str cs))"

definition is_cstring :: "string \<Rightarrow> bool" where
  "is_cstring s \<longleftrightarrow> NUL \<notin> set s"

lemma is_cstring_simps [simp]:
  "is_cstring []"
  "is_cstring (c # s) \<longleftrightarrow> c \<noteq> NUL \<and> is_cstring s"
  "is_cstring (s @ t) \<longleftrightarrow> is_cstring s \<and> is_cstring t"
  by (auto simp: is_cstring_def)

lemma c_str_append [cstr_simps]: "is_cstring s \<Longrightarrow> c_str (s @ t) = map_option ((@) s) (c_str t)"
  by (induction s; cases "c_str t") auto

lemma c_str_terminated [cstr_simps]: "is_cstring s \<Longrightarrow> c_str (s @ NUL # t) = Some s"
  by (simp add: c_str_append)

lemma c_str_Some:
  "c_str m = Some s \<Longrightarrow> is_cstring s \<and> length s < length m \<and> m ! length s = NUL \<and> take (length s) m = s"
  by (induction m arbitrary: s) (auto split: if_splits)

lemma c_str_SomeD: "c_str m = Some s \<Longrightarrow> \<exists>r. m = s @ NUL # r \<and> is_cstring s"
  by (induction m arbitrary: s) (auto split: if_splits)

lemma c_str_eq_Some_iff: "c_str m = Some s \<longleftrightarrow> (\<exists>r. m = s @ NUL # r) \<and> is_cstring s"
  using c_str_SomeD c_str_terminated by blast

lemma c_str_None_iff: "c_str m = None \<longleftrightarrow> NUL \<notin> set m"
  by (induction m) auto

lemma is_cstring_take [intro]: "is_cstring s \<Longrightarrow> is_cstring (take n s)"
  by (auto simp: is_cstring_def dest: in_set_takeD)

lemma is_cstring_drop [intro]: "is_cstring s \<Longrightarrow> is_cstring (drop n s)"
  by (auto simp: is_cstring_def dest: in_set_dropD)

lemma is_cstring_takeWhile [intro]: "is_cstring s \<Longrightarrow> is_cstring (takeWhile P s)"
  by (auto simp: is_cstring_def dest: set_takeWhileD)

text \<open>
  \<open>strcpy\<close> into an object: the characters and the terminator must fit.
\<close>

definition c_strcpy :: "string \<Rightarrow> nat \<Rightarrow> string \<Rightarrow> string option" where
  "c_strcpy buf off s = blit buf off (s @ [NUL])"

text \<open>
  \<open>strchr\<close> for a character other than NUL and \<open>strstr\<close>, on the contents of a C string;
  the result is the offset of the first occurrence, \<open>None\<close> stands for NULL.
\<close>

fun find_char :: "char \<Rightarrow> string \<Rightarrow> nat option" where
  "find_char c [] = None"
| "find_char c (x # xs) = (if x = c then Some 0 else map_option Suc (find_char c xs))"

fun find_sub :: "string \<Rightarrow> string \<Rightarrow> nat option" where
  "find_sub n [] = (if n = [] then Some 0 else None)"
| "find_sub n (x # xs) = (if prefix n (x # xs) then Some 0 else map_option Suc (find_sub n xs))"

lemma find_char_None [find_simps]: "find_char c s = None \<longleftrightarrow> c \<notin> set s"
  by (induction s) auto

lemma find_char_append_in [find_simps]:
  "c \<notin> set xs \<Longrightarrow> find_char c (xs @ ys) = map_option ((+) (length xs)) (find_char c ys)"
  by (induction xs; cases "find_char c ys") auto

lemma find_char_first [find_simps]: "c \<notin> set xs \<Longrightarrow> find_char c (xs @ c # ys) = Some (length xs)"
  by (simp add: find_char_append_in)

lemma find_char_Some:
  "find_char c s = Some i \<Longrightarrow> i < length s \<and> s ! i = c \<and> c \<notin> set (take i s)"
  by (induction s arbitrary: i) (auto split: if_splits)

lemma find_char_SomeD:
  "find_char c s = Some i \<Longrightarrow> \<exists>xs ys. s = xs @ c # ys \<and> length xs = i \<and> c \<notin> set xs"
proof (induction s arbitrary: i)
  case (Cons x s)
  show ?case
  proof (cases "x = c")
    case True
    with Cons.prems show ?thesis by auto
  next
    case False
    with Cons.prems obtain j where j: "find_char c s = Some j" "i = Suc j" by auto
    from Cons.IH[OF j(1)] obtain xs ys where "s = xs @ c # ys" "length xs = j" "c \<notin> set xs"
      by blast
    with False j(2) have "x # s = (x # xs) @ c # ys \<and> length (x # xs) = i \<and> c \<notin> set (x # xs)"
      by simp
    then show ?thesis by blast
  qed
qed simp

lemma find_sub_Nil [simp]: "find_sub [] s = Some 0"
  by (cases s) auto

lemma find_sub_here [find_simps]: "find_sub n (n @ s) = Some 0"
  by (cases n) (auto simp: prefix_def)

lemma find_sub_prefix: "prefix n s \<Longrightarrow> find_sub n s = Some 0"
  by (cases s) auto

text \<open>Skipping a region in which no occurrence starts.\<close>

lemma find_sub_skip:
  assumes "\<And>p. p < length xs \<Longrightarrow> \<not> prefix n (drop p (xs @ ys))"
  shows "find_sub n (xs @ ys) = map_option ((+) (length xs)) (find_sub n ys)"
  using assms
proof (induction xs)
  case Nil
  then show ?case by (cases "find_sub n ys") auto
next
  case (Cons x xs)
  from Cons.prems[of 0] have no: "\<not> prefix n (x # xs @ ys)" by simp
  have "find_sub n (xs @ ys) = map_option ((+) (length xs)) (find_sub n ys)"
  proof (rule Cons.IH)
    fix p assume "p < length xs"
    with Cons.prems[of "Suc p"] show "\<not> prefix n (drop p (xs @ ys))" by simp
  qed
  with no show ?case by (cases "find_sub n ys") auto
qed

lemma find_sub_Some:
  "find_sub n s = Some i \<Longrightarrow> i \<le> length s \<and> prefix n (drop i s)"
  by (induction s arbitrary: i) (auto split: if_splits)

lemma find_sub_least:
  "find_sub n s = Some i \<Longrightarrow> j < i \<Longrightarrow> \<not> prefix n (drop j s)"
proof (induction s arbitrary: i j)
  case (Cons x s)
  then show ?case by (cases j) (auto split: if_splits)
qed (auto split: if_splits)

lemma find_sub_None:
  "find_sub n s = None \<Longrightarrow> \<not> prefix n (drop j s)"
proof (induction s arbitrary: j)
  case (Cons x s)
  then show ?case by (cases j) (auto split: if_splits)
qed (auto split: if_splits)

section \<open>Formatted output\<close>

definition digit :: "nat \<Rightarrow> char" where
  "digit d = char_of (48 + d)"

fun dec :: "nat \<Rightarrow> string" where
  "dec n = (if n < 10 then [digit n] else dec (n div 10) @ [digit (n mod 10)])"

declare dec.simps [simp del]

text \<open>\<open>%d\<close> of an int, \<open>%0wllu\<close> and \<open>%02x\<close>.\<close>

definition dec_int :: "int \<Rightarrow> string" where
  "dec_int i = (if i < 0 then CHR ''-'' # dec (nat (- i)) else dec (nat i))"

definition pad0 :: "nat \<Rightarrow> string \<Rightarrow> string" where
  "pad0 w s = replicate (w - length s) (CHR ''0'') @ s"

definition hex_digit :: "nat \<Rightarrow> char" where
  "hex_digit d = (if d < 10 then char_of (48 + d) else char_of (87 + d))"

definition hex2 :: "u8 \<Rightarrow> string" where
  "hex2 b = [hex_digit (unat b div 16), hex_digit (unat b mod 16)]"

text \<open>
  \<open>snprintf(buf + off, size, ...)\<close> whose full output is \<open>s\<close>: at most \<open>size - 1\<close>
  characters and a terminator are written; nothing when \<open>size\<close> is 0.
\<close>

definition c_snprintf :: "string \<Rightarrow> nat \<Rightarrow> nat \<Rightarrow> string \<Rightarrow> string option" where
  "c_snprintf buf off sz s =
     (if sz = 0 then Some buf else c_strcpy buf off (take (sz - 1) s))"

subsection \<open>Parsing decimal numbers\<close>

definition is_digit :: "char \<Rightarrow> bool" where
  "is_digit c \<longleftrightarrow> 48 \<le> (of_char c :: nat) \<and> (of_char c :: nat) \<le> 57"

fun digits_val :: "nat \<Rightarrow> string \<Rightarrow> nat" where
  "digits_val acc [] = acc"
| "digits_val acc (c # cs) = digits_val (acc * 10 + (of_char c - 48)) cs"

lemma of_char_digit [fmt_simps]: "d < 10 \<Longrightarrow> (of_char (digit d) :: nat) = 48 + d"
  by (simp add: digit_def)

lemma is_digit_digit [fmt_simps]: "d < 10 \<Longrightarrow> is_digit (digit d)"
  by (simp add: is_digit_def of_char_digit)

lemma dec_nonempty [simp]: "dec n \<noteq> []"
  by (subst dec.simps) simp

lemma dec_digits [fmt_simps]: "list_all is_digit (dec n)"
proof (induction n rule: dec.induct)
  case (1 n)
  then show ?case by (subst dec.simps) (auto simp: is_digit_digit)
qed

lemma digits_val_append [fmt_simps]:
  "digits_val acc (xs @ ys) = digits_val (digits_val acc xs) ys"
  by (induction xs arbitrary: acc) auto

lemma digits_val_zeros [fmt_simps]: "digits_val 0 (replicate k (CHR ''0'')) = 0"
  by (induction k) auto

lemma digits_val_dec [fmt_simps]: "digits_val 0 (dec n) = n"
proof (induction n rule: dec.induct)
  case (1 n)
  show ?case
  proof (cases "n < 10")
    case True
    then show ?thesis by (subst dec.simps) (simp add: of_char_digit)
  next
    case False
    with 1 show ?thesis by (subst dec.simps) (simp add: digits_val_append of_char_digit)
  qed
qed

lemma digits_val_pad0_dec [fmt_simps]: "digits_val 0 (pad0 w (dec n)) = n"
  by (simp add: pad0_def fmt_simps)

lemma pad0_dec_digits [fmt_simps]: "list_all is_digit (pad0 w (dec n))"
  using dec_digits[of n] by (auto simp: pad0_def list_all_iff is_digit_def)

lemma length_dec_le [fmt_simps]: "0 < k \<Longrightarrow> n < 10 ^ k \<Longrightarrow> length (dec n) \<le> k"
proof (induction n arbitrary: k rule: dec.induct)
  case (1 n)
  show ?case
  proof (cases "n < 10")
    case True
    with 1 show ?thesis by (subst dec.simps) simp
  next
    case False
    then have "k \<noteq> 1" using "1.prems" by auto
    then obtain m where m: "k = Suc m" "0 < m" using "1.prems" by (cases k) auto
    with "1.prems" have "n div 10 < 10 ^ m" by auto
    with "1.IH"[OF False m(2)] have "length (dec (n div 10)) \<le> m" by simp
    with False m show ?thesis by (subst dec.simps) simp
  qed
qed

lemma length_dec_ge: "10 ^ k \<le> n \<Longrightarrow> k < length (dec n)"
proof (induction n arbitrary: k rule: dec.induct)
  case (1 n)
  show ?case
  proof (cases "n < 10")
    case True
    with "1.prems" have "(10::nat) ^ k < 10 ^ 1" by simp
    then have "k < 1" by (rule power_less_imp_less_exp[rotated]) simp
    then have "k = 0" by simp
    with True show ?thesis by (subst dec.simps) simp
  next
    case False
    show ?thesis
    proof (cases k)
      case 0
      then show ?thesis by (simp add: length_greater_0_conv)
    next
      case (Suc m)
      with "1.prems" have "10 ^ m \<le> n div 10" by (simp add: less_eq_div_iff_mult_less_eq mult.commute)
      with "1.IH"[OF False, of m] False Suc show ?thesis by (subst dec.simps) simp
    qed
  qed
qed

lemma length_pad0 [fmt_simps]: "length s \<le> w \<Longrightarrow> length (pad0 w s) = w"
  by (simp add: pad0_def)

lemma length_pad0_ge: "w \<le> length (pad0 w s)"
  by (simp add: pad0_def)

lemma digit_not_NUL: "is_digit c \<Longrightarrow> c \<noteq> NUL"
  by (auto simp: is_digit_def)

lemma is_cstring_digits: "list_all is_digit s \<Longrightarrow> is_cstring s"
  by (induction s) (auto simp: is_digit_def)

section \<open>Lists of known length\<close>

lemma replicate_numeral: "replicate (numeral n) x = x # replicate (pred_numeral n) x"
  by (simp add: numeral_eq_Suc)

end
