(* ===== verification/Ctx.thy ===== *)
theory Ctx
  imports Prelude
begin

text \<open>
  The types every component shares: the error codes of \<open>src/dt_err.h\<close>, and from
  \<open>src/state/state.h\<close> the loop states and the application context \<open>APP_CTX_T\<close>. The two
  pointers of the context to structures of other files (\<open>MQTT_CLIENT_T\<close> of
  \<open>connect.c\<close>, \<open>NTP_T\<close> of \<open>util.c\<close>) are options holding the structure, because the
  context is their only owner. The 16 log pointers keep their aliasing: they are
  addresses into an explicit heap.

  The C ints used as flags are bools: the code writes only 0, 1 and true to them and
  only tests them for being nonzero.
\<close>

section \<open>Error codes\<close>

datatype dt_err =
    DT_ERR_OK | DT_ERR_FLASHMEMSIZE | DT_ERR_INVALIDKEY | DT_ERR_CORRUPT | DT_ERR_MALLOC
  | DT_ERR_VALSIZE | DT_ERR_KEYNOTFOUND | DT_ERR_MACADDR | DT_ERR_LWIPERR | DT_ERR_OPENSERVER
  | DT_ERR_I2CINIT | DT_ERR_2MANYLOGS | DT_ERR_OFFLINE

fun err_code :: "dt_err \<Rightarrow> int" where
  "err_code DT_ERR_OK = 0"
| "err_code DT_ERR_FLASHMEMSIZE = 1"
| "err_code DT_ERR_INVALIDKEY = 2"
| "err_code DT_ERR_CORRUPT = 3"
| "err_code DT_ERR_MALLOC = 4"
| "err_code DT_ERR_VALSIZE = 5"
| "err_code DT_ERR_KEYNOTFOUND = 6"
| "err_code DT_ERR_MACADDR = 7"
| "err_code DT_ERR_LWIPERR = 8"
| "err_code DT_ERR_OPENSERVER = 9"
| "err_code DT_ERR_I2CINIT = 10"
| "err_code DT_ERR_2MANYLOGS = 11"
| "err_code DT_ERR_OFFLINE = 12"

lemma err_code_eq_0 [simp]: "err_code e = 0 \<longleftrightarrow> e = DT_ERR_OK"
  by (cases e) simp_all

lemma err_code_inj: "err_code a = err_code b \<Longrightarrow> a = b"
  by (cases a; cases b) simp_all

section \<open>Loop states\<close>

datatype loop_state =
    FLASH_INIT | WIFI_CONFIG | FLASH_WRITE | MQTT_INIT | SENSE_INIT | NTP_SYNC
  | MQTT_PUBLISH | MQTT_LISTEN | BATT_LISTEN | SENSE_LISTEN | LOGDUMP | THROTTLE
  | LOOP_STATE_COUNT

section \<open>The heap of log messages\<close>

text \<open>
  Blocks are named by natural numbers. A fresh block gets a number never used before, so
  a freed pointer stays distinguishable from every later allocation and each use of one
  is found: freeing or reading an address with no block is undefined behaviour.
\<close>

type_synonym ptr = nat

record heap =
  blocks :: "ptr \<rightharpoonup> string"
  next_ptr :: ptr

definition heap_wf :: "heap \<Rightarrow> bool" where
  "heap_wf h \<longleftrightarrow> (\<forall>p \<in> dom (blocks h). p < next_ptr h)"

definition heap_alloc :: "string \<Rightarrow> heap \<Rightarrow> ptr \<times> heap" where
  "heap_alloc b h =
     (next_ptr h, h\<lparr>blocks := (blocks h)(next_ptr h \<mapsto> b), next_ptr := Suc (next_ptr h)\<rparr>)"

definition heap_free :: "ptr \<Rightarrow> heap \<Rightarrow> heap option" where
  "heap_free p h =
     (case blocks h p of None \<Rightarrow> None
      | Some _ \<Rightarrow> Some (h\<lparr>blocks := (blocks h)(p := None)\<rparr>))"

definition heap_load :: "ptr \<Rightarrow> heap \<Rightarrow> string option" where
  "heap_load p h = blocks h p"

definition heap_store :: "ptr \<Rightarrow> string \<Rightarrow> heap \<Rightarrow> heap option" where
  "heap_store p b h =
     (case blocks h p of None \<Rightarrow> None | Some _ \<Rightarrow> Some (h\<lparr>blocks := (blocks h)(p \<mapsto> b)\<rparr>))"

lemma heap_wf_alloc: "heap_wf h \<Longrightarrow> heap_alloc b h = (p, h') \<Longrightarrow> heap_wf h' \<and> blocks h p = None"
  by (auto simp: heap_wf_def heap_alloc_def dom_def less_Suc_eq)

lemma heap_wf_free: "heap_wf h \<Longrightarrow> heap_free p h = Some h' \<Longrightarrow> heap_wf h'"
  by (auto simp: heap_wf_def heap_free_def dom_def split: option.splits if_splits)

lemma heap_wf_store: "heap_wf h \<Longrightarrow> heap_store p b h = Some h' \<Longrightarrow> heap_wf h'"
  by (auto simp: heap_wf_def heap_store_def dom_def split: option.splits if_splits)

section \<open>The application context\<close>

text \<open>
  \<open>MQTT_CLIENT_T\<close>: \<open>lwip_client\<close> says whether \<open>mqtt_client_new\<close> returned a client
  (the pointer \<open>mqtt_client\<close> is not NULL); \<open>remote_addr\<close> is the parsed broker address.
\<close>

record mqtt_client_t =
  remote_addr :: u32
  lwip_client :: bool
  received :: u32
  counter :: u32
  reconnect :: u32

text \<open>\<open>NTP_T\<close>: times are microseconds since boot, \<open>ntp_resend_alarm\<close> is an alarm id (an int).\<close>

record ntp_t =
  ntp_server_address :: u32
  dns_request_sent :: bool
  ntp_pcb :: bool
  ntp_next_poll :: u64
  ntp_resend_alarm :: int
  epoch_secs :: u64
  hw_ref_ms :: u64
  synced :: bool

record app_ctx =
  loop_state :: loop_state
  set_publish :: bool
  flash_initd :: bool
  wifi_configd :: bool
  flash_written :: bool
  mqtt_initd :: bool
  sense_initd :: bool
  ntp_syncd :: bool
  wifi_ssid :: string
  wifi_pass :: string
  prv_token :: string
  hub_loc :: string
  mqtt_client :: "mqtt_client_t option"
  ntp_state :: "ntp_t option"
  capacitance :: u16
  temperature :: u16
  cprev :: u16
  tprev :: u16
  reset :: bool
  reset_pressed_ts :: u64
  reset_pressed :: bool
  blink_ts :: u64
  blink_on :: bool
  dump_logs :: bool
  logdump :: "ptr option list"

text \<open>What \<open>calloc(sizeof(APP_CTX_T), 1)\<close> leaves: all bits zero.\<close>

definition zero_ctx :: app_ctx where
  "zero_ctx = \<lparr>
     loop_state = FLASH_INIT, set_publish = False, flash_initd = False, wifi_configd = False,
     flash_written = False, mqtt_initd = False, sense_initd = False, ntp_syncd = False,
     wifi_ssid = replicate 64 NUL, wifi_pass = replicate 64 NUL, prv_token = replicate 64 NUL,
     hub_loc = replicate 64 NUL, mqtt_client = None, ntp_state = None,
     capacitance = 0, temperature = 0, cprev = 0, tprev = 0,
     reset = False, reset_pressed_ts = 0, reset_pressed = False, blink_ts = 0, blink_on = False,
     dump_logs = False, logdump = replicate 16 None\<rparr>"

text \<open>
  The type invariant of the context: the arrays keep their declared sizes and the four text
  buffers stay terminated.
\<close>

definition ctx_wf :: "app_ctx \<Rightarrow> bool" where
  "ctx_wf c \<longleftrightarrow>
     length (wifi_ssid c) = 64 \<and> NUL \<in> set (wifi_ssid c) \<and>
     length (wifi_pass c) = 64 \<and> NUL \<in> set (wifi_pass c) \<and>
     length (prv_token c) = 64 \<and> NUL \<in> set (prv_token c) \<and>
     length (hub_loc c) = 64 \<and> NUL \<in> set (hub_loc c) \<and>
     length (logdump c) = 16"

lemma ctx_wf_zero: "ctx_wf zero_ctx"
  by (simp add: ctx_wf_def zero_ctx_def)

lemma NUL_in_c_str: "NUL \<in> set m \<Longrightarrow> \<exists>s. c_str m = Some s"
  using c_str_None_iff[of m] by (cases "c_str m") auto

end
