(* ===== verification/Flashmem.thy ===== *)
theory Flashmem
  imports Ctx
begin

text \<open>
  Model of \<open>src/flashmem/flashmem.c\<close>: the key/value store kept in the last 4 KiB sector of
  flash, as text of the form \<open>,key1=val1,key2=val2\<close> ended by NUL, and the two handlers
  that load and save the wifi credentials.

  The flash sector \<open>fl\<close> (\<open>ADDR_PERSISTENT\<close>, \<open>NVS_SIZE\<close> bytes) is passed in and returned.
  What the Pico SDK and the allocator decide is a record of parameters, one for each call
  of a store operation. C strings given as arguments (keys, values) are given by their
  contents; buffers are given whole.
\<close>

definition NVS_SIZE :: nat where "NVS_SIZE = 4096"
definition MAX_VAL_SIZE :: nat where "MAX_VAL_SIZE = 256"
definition PAGE_SIZE :: nat where "PAGE_SIZE = 256"

lemmas flash_sizes = NVS_SIZE_def MAX_VAL_SIZE_def PAGE_SIZE_def

section \<open>The environment of a store operation\<close>

text \<open>The \<open>malloc\<close> calls of the file, by the variable that takes the result.\<close>

datatype flash_site =
  M_zero_buf | M_esc | M_key_search | M_key_val_item | M_chunk_pre | M_chunk_post
| M_write_buf | M_read_key_search

text \<open>
  \<open>dev_erase fl n\<close> is the sector after \<open>flash_range_erase(offs, n)\<close>, \<open>dev_program fl d\<close>
  after \<open>flash_range_program\<close> of the data \<open>d\<close> at its start, and \<open>dev_executes\<close> says whether
  \<open>flash_safe_execute\<close> ran its callback (the code ignores the result).
\<close>

record flash_dev =
  malloc_ok :: "flash_site \<Rightarrow> bool"
  dev_erase :: "string \<Rightarrow> nat \<Rightarrow> string"
  dev_program :: "string \<Rightarrow> string \<Rightarrow> string"
  dev_executes :: bool

record flash_op_ctx =
  op_data :: string
  erase_count :: nat
  prog_count :: nat

definition do_flash_erase_program :: "flash_dev \<Rightarrow> flash_op_ctx \<Rightarrow> string \<Rightarrow> string option" where
  "do_flash_erase_program dev op fl = do {
     let fl1 = dev_erase dev fl (erase_count op);
     d \<leftarrow> rd_bytes (op_data op) 0 (prog_count op);
     Some (dev_program dev fl1 d)
   }"

definition flash_safe_execute :: "flash_dev \<Rightarrow> flash_op_ctx \<Rightarrow> string \<Rightarrow> string option" where
  "flash_safe_execute dev op fl =
     (if dev_executes dev then do_flash_erase_program dev op fl else Some fl)"

section \<open>The store operations\<close>

definition initialize_flash :: "flash_dev \<Rightarrow> bool \<Rightarrow> string \<Rightarrow> (dt_err \<times> string) option" where
  "initialize_flash dev force_clear fl =
     (if \<not> force_clear \<and> list_ex (\<lambda>c. c \<noteq> CHR 0xFF) (take NVS_SIZE fl) then Some (DT_ERR_OK, fl)
      else if \<not> malloc_ok dev M_zero_buf then Some (DT_ERR_MALLOC, fl)
      else do {
        fl' \<leftarrow> flash_safe_execute dev
                 \<lparr>op_data = replicate NVS_SIZE NUL, erase_count = NVS_SIZE, prog_count = NVS_SIZE\<rparr> fl;
        Some (DT_ERR_OK, fl')
      })"

definition special_ch :: "char \<Rightarrow> bool" where
  "special_ch c \<longleftrightarrow> c = CHR ''='' \<or> c = CHR '','' \<or> c = CHR 0x5C"

text \<open>The two loops of \<open>esc_chars\<close>: count, then copy with a backslash before each special character.\<close>

fun esc_counts :: "string \<Rightarrow> nat \<times> nat" where
  "esc_counts [] = (0, 0)"
| "esc_counts (c # cs) =
     (case esc_counts cs of (val_len, special_ch_ct) \<Rightarrow>
        (Suc val_len, if special_ch c then Suc special_ch_ct else special_ch_ct))"

fun esc :: "string \<Rightarrow> string" where
  "esc [] = []"
| "esc (c # cs) = (if special_ch c then CHR 0x5C # c # esc cs else c # esc cs)"

text \<open>The outer option is undefined behaviour, the inner one a NULL result.\<close>

definition esc_chars :: "flash_dev \<Rightarrow> string option \<Rightarrow> string option option" where
  "esc_chars dev val =
     (case val of
        None \<Rightarrow> Some None
      | Some v \<Rightarrow>
          (if \<not> malloc_ok dev M_esc then Some None
           else case esc_counts v of (val_len, special_ch_ct) \<Rightarrow> do {
             res \<leftarrow> c_strcpy (replicate (val_len + special_ch_ct + 1) NUL) 0 (esc v);
             s \<leftarrow> c_str res;
             Some (Some s)
           }))"

definition get_next_item :: "string \<Rightarrow> nat option" where
  "get_next_item s = find_char (CHR '','') s"

text \<open>
  \<open>start\<close> and \<open>stop\<close> are offsets into \<open>buf\<close>. The size check is the code's expression,
  in the 32-bit \<open>size_t\<close> it is computed in.
\<close>

definition splice_size :: "nat \<Rightarrow> nat \<Rightarrow> nat \<Rightarrow> nat \<Rightarrow> u32" where
  "splice_size buf_len start_sz end_sz repl_len =
     of_nat buf_len + (of_nat start_sz - of_nat end_sz) + of_nat repl_len"

definition splice ::
  "flash_dev \<Rightarrow> string \<Rightarrow> nat \<Rightarrow> nat \<Rightarrow> string \<Rightarrow> (dt_err \<times> string) option" where
  "splice dev buf start stop repl = do {
     s \<leftarrow> c_str buf;
     tail \<leftarrow> c_str (drop stop buf);
     let end_sz = length tail;
     if splice_size (length s) start end_sz (length repl) > of_nat NVS_SIZE
     then Some (DT_ERR_FLASHMEMSIZE, buf)
     else do {
       require (malloc_ok dev M_chunk_pre);
       chunk_pre \<leftarrow> rd_bytes buf 0 start;
       require (malloc_ok dev M_chunk_post);
       chunk_post \<leftarrow> rd_bytes buf stop end_sz;
       buf1 \<leftarrow> blit buf 0 (replicate NVS_SIZE NUL);
       buf2 \<leftarrow> blit buf1 0 chunk_pre;
       buf3 \<leftarrow> blit buf2 start repl;
       mid \<leftarrow> c_str (drop start buf3);
       buf4 \<leftarrow> blit buf3 (start + length mid) chunk_post;
       Some (DT_ERR_OK, buf4)
     }
   }"

definition invalid_key :: "string \<Rightarrow> bool" where
  "invalid_key key \<longleftrightarrow>
     find_char (CHR 0x5C) key \<noteq> None \<or> find_char (CHR '','') key \<noteq> None \<or>
     find_char (CHR ''='') key \<noteq> None"

text \<open>Result: the error code, the edited buffer, and the flash sector \<open>initialize_flash\<close> left.\<close>

definition upsert_key ::
  "flash_dev \<Rightarrow> string \<Rightarrow> string \<Rightarrow> string \<Rightarrow> string \<Rightarrow> (dt_err \<times> string \<times> string) option" where
  "upsert_key dev key val buf fl =
     (if invalid_key key then Some (DT_ERR_INVALIDKEY, buf, fl)
      else do {
        (_, fl') \<leftarrow> initialize_flash dev False fl;
        cv \<leftarrow> esc_chars dev (Some val);
        require (malloc_ok dev M_key_search);
        let key_search = key @ ''='';
        clean_val \<leftarrow> cv;
        require (malloc_ok dev M_key_val_item);
        let key_val_item = key_search @ clean_val;
        s \<leftarrow> c_str buf;
        case find_sub key_search s of
          None \<Rightarrow>
            (if length key_search + length clean_val + length s + 1 > NVS_SIZE - 1
             then Some (DT_ERR_FLASHMEMSIZE, buf, fl')
             else do {
               buf1 \<leftarrow> wr buf (length s) (CHR '','');
               buf2 \<leftarrow> c_strcpy buf1 (length s + 1) key_val_item;
               Some (DT_ERR_OK, buf2, fl')
             })
        | Some key_loc \<Rightarrow> do {
            let stop = (case get_next_item (drop key_loc s) of
                          Some i \<Rightarrow> key_loc + i | None \<Rightarrow> length s);
            (_, buf') \<leftarrow> splice dev buf key_loc stop key_val_item;
            Some (DT_ERR_OK, buf', fl')
          }
      })"

definition write_size :: "nat \<Rightarrow> nat" where
  "write_size mem_size = (if mem_size mod 256 \<noteq> 0 then (mem_size div 256 + 1) * 256 else mem_size)"

text \<open>\<open>write\<close> of the source.\<close>

definition write_val :: "flash_dev \<Rightarrow> string \<Rightarrow> string \<Rightarrow> string \<Rightarrow> (dt_err \<times> string) option" where
  "write_val dev key val fl =
     (if length val > MAX_VAL_SIZE then Some (DT_ERR_VALSIZE, fl)
      else do {
        require (malloc_ok dev M_write_buf);
        buf \<leftarrow> rd_bytes fl 0 NVS_SIZE;
        (err, buf', fl') \<leftarrow> upsert_key dev key val buf fl;
        if err \<noteq> DT_ERR_OK then Some (err, fl')
        else do {
          s \<leftarrow> c_str buf';
          fl'' \<leftarrow> flash_safe_execute dev
                    \<lparr>op_data = buf', erase_count = NVS_SIZE, prog_count = write_size (length s)\<rparr> fl';
          Some (DT_ERR_OK, fl'')
        }
      })"

text \<open>
  The scan of \<open>get_val_end\<close> over the text after the equals sign: \<open>i++\<close> on a backslash, then
  the character now at \<open>i\<close> (the terminator, past the end) is compared with the comma. The
  result is the offset of the comma.
\<close>

fun scan_val_end :: "string \<Rightarrow> nat option" where
  "scan_val_end [] = None"
| "scan_val_end (c # cs) =
     (if c = CHR 0x5C
      then (case cs of
              [] \<Rightarrow> None
            | d # ds \<Rightarrow> if d = CHR '','' then Some 1 else map_option ((+) 2) (scan_val_end ds))
      else if c = CHR '','' then Some 0
      else map_option Suc (scan_val_end cs))"

definition get_val_end :: "string \<Rightarrow> dt_err \<times> nat" where
  "get_val_end val =
     (case scan_val_end val of
        Some i \<Rightarrow> (DT_ERR_OK, i)
      | None \<Rightarrow> (DT_ERR_OK, length val))"

text \<open>The unescaping loop of \<open>read\<close>, in place: \<open>e\<close> is \<open>esc_char\<close> and \<open>fin\<close> is \<open>end\<close>.\<close>

function unesc_loop :: "string \<Rightarrow> nat \<Rightarrow> nat \<Rightarrow> string option" where
  "unesc_loop buf e fin =
     (if e < fin then do {
        c \<leftarrow> rd buf e;
        if c = CHR 0x5C then do {
          s \<leftarrow> c_str (drop (e + 1) buf);
          buf' \<leftarrow> c_strcpy buf e s;
          unesc_loop buf' (e + 1) (fin - 1)
        } else unesc_loop buf (e + 1) fin
      } else Some buf)"
  by pat_completeness auto
termination
  by (relation "measure (\<lambda>(buf, e, fin). fin - e)") auto

declare unesc_loop.simps [simp del]

text \<open>\<open>read\<close> of the source: the result carries the caller's buffer.\<close>

definition read_val :: "flash_dev \<Rightarrow> string \<Rightarrow> string \<Rightarrow> string \<Rightarrow> (dt_err \<times> string) option" where
  "read_val dev key out_val fl =
     (if invalid_key key then Some (DT_ERR_INVALIDKEY, out_val)
      else do {
        require (malloc_ok dev M_read_key_search);
        s \<leftarrow> c_str fl;
        case find_sub (key @ ''='') s of
          None \<Rightarrow> Some (DT_ERR_KEYNOTFOUND, out_val)
        | Some key_loc \<Rightarrow>
            (case find_char (CHR ''='') (drop key_loc s) of
               None \<Rightarrow> Some (DT_ERR_CORRUPT, out_val)
             | Some ass \<Rightarrow>
                 (let val = drop (key_loc + ass + 1) s;
                      (err, val_end) = get_val_end val
                  in if err \<noteq> DT_ERR_OK then Some (err, out_val)
                     else do {
                       out1 \<leftarrow> blit out_val 0 (take val_end val);
                       out2 \<leftarrow> wr out1 val_end NUL;
                       t \<leftarrow> c_str out2;
                       out3 \<leftarrow> unesc_loop out2 0 (length t);
                       Some (DT_ERR_OK, out3)
                     }))
      })"

section \<open>The handlers\<close>

text \<open>\<open>dev i\<close> is the environment of the i-th call of a store operation the handler makes.\<close>

definition flash_init_handler ::
  "(nat \<Rightarrow> flash_dev) \<Rightarrow> app_ctx \<Rightarrow> string \<Rightarrow> (dt_err \<times> app_ctx \<times> string) option" where
  "flash_init_handler dev ctx fl = do {
     (err, fl') \<leftarrow> initialize_flash (dev 0) False fl;
     if err \<noteq> DT_ERR_OK then Some (err, ctx, fl')
     else do {
       (err, ssid) \<leftarrow> read_val (dev 1) ''ssid'' (wifi_ssid ctx) fl';
       let ctx = ctx\<lparr>wifi_ssid := ssid\<rparr>;
       if err = DT_ERR_KEYNOTFOUND then Some (DT_ERR_OK, ctx\<lparr>flash_initd := True\<rparr>, fl')
       else if err \<noteq> DT_ERR_OK then Some (err, ctx, fl')
       else do {
         (err, pass) \<leftarrow> read_val (dev 2) ''password'' (wifi_pass ctx) fl';
         let ctx = ctx\<lparr>wifi_pass := pass\<rparr>;
         if err \<noteq> DT_ERR_OK then Some (err, ctx, fl')
         else do {
           (err, token) \<leftarrow> read_val (dev 3) ''contract'' (prv_token ctx) fl';
           let ctx = ctx\<lparr>prv_token := token\<rparr>;
           if err \<noteq> DT_ERR_OK then Some (err, ctx, fl')
           else Some (DT_ERR_OK,
                  ctx\<lparr>wifi_configd := True, flash_initd := True, flash_written := True\<rparr>, fl')
         }
       }
     }
   }"

definition flash_write_handler ::
  "(nat \<Rightarrow> flash_dev) \<Rightarrow> app_ctx \<Rightarrow> string \<Rightarrow> (dt_err \<times> app_ctx \<times> string) option" where
  "flash_write_handler dev ctx fl = do {
     ssid \<leftarrow> c_str (wifi_ssid ctx);
     (err, fl) \<leftarrow> write_val (dev 0) ''ssid'' ssid fl;
     if err \<noteq> DT_ERR_OK then Some (err, ctx, fl)
     else do {
       pass \<leftarrow> c_str (wifi_pass ctx);
       (err, fl) \<leftarrow> write_val (dev 1) ''password'' pass fl;
       if err \<noteq> DT_ERR_OK then Some (err, ctx, fl)
       else do {
         token \<leftarrow> c_str (prv_token ctx);
         (err, fl) \<leftarrow> write_val (dev 2) ''contract'' token fl;
         if err \<noteq> DT_ERR_OK then Some (err, ctx, fl)
         else Some (DT_ERR_OK, ctx\<lparr>flash_written := True\<rparr>, fl)
       }
     }
   }"

end
