(* ===== verification/Contracts.thy ===== *)
theory Contracts
  imports Main "HOL-Library.AList"
begin

text \<open>
  The interfaces between components, as locales: what a client may assume of the operations
  it calls. Each is interpreted in the theory of the component that provides it
  (\<open>Flash_Store\<close> for the key/value contracts, \<open>B64\<close> for the codec).
\<close>

section \<open>Looking keys up in a store\<close>

text \<open>
  \<open>rep s m\<close>: the state \<open>s\<close> stores the association list \<open>m\<close>. \<open>fetch\<close> delivers into a
  buffer of the caller, with a status; \<open>holds b v\<close> says the buffer holds the value and
  \<open>fits b v\<close> that it is big enough. \<open>None\<close> is undefined behaviour.
\<close>

locale kv_lookup =
  fixes rep :: "'s \<Rightarrow> ('k \<times> 'v) list \<Rightarrow> bool"
    and env_ok :: "'e \<Rightarrow> bool"
    and fetch :: "'e \<Rightarrow> 'k \<Rightarrow> 'b \<Rightarrow> 's \<Rightarrow> ('r \<times> 'b) option"
    and fits :: "'b \<Rightarrow> 'v \<Rightarrow> bool"
    and holds :: "'b \<Rightarrow> 'v \<Rightarrow> bool"
    and visible :: "'k \<Rightarrow> ('k \<times> 'v) list \<Rightarrow> bool"
    and found :: 'r and missing :: 'r
  assumes fetch_found:
      "rep s m \<Longrightarrow> env_ok e \<Longrightarrow> map_of m k = Some v \<Longrightarrow> fits b v \<Longrightarrow>
       \<exists>b'. fetch e k b s = Some (found, b') \<and> holds b' v"
    and fetch_missing:
      "rep s m \<Longrightarrow> env_ok e \<Longrightarrow> map_of m k = None \<Longrightarrow> visible k m \<Longrightarrow>
       fetch e k b s = Some (missing, b)"
begin

text \<open>A lookup never leaves defined behaviour.\<close>

lemma fetch_defined:
  assumes "rep s m" "env_ok e" "visible k m" "\<And>v. map_of m k = Some v \<Longrightarrow> fits b v"
  shows "fetch e k b s \<noteq> None"
proof (cases "map_of m k")
  case None
  from fetch_missing[OF assms(1,2) None assms(3)] show ?thesis by simp
next
  case (Some v)
  from fetch_found[OF assms(1,2) Some assms(4)[OF Some]] show ?thesis by blast
qed

end

section \<open>Updating the store\<close>

locale kv_store = kv_lookup rep env_ok fetch fits holds visible found missing
  for rep :: "'s \<Rightarrow> ('k \<times> 'v) list \<Rightarrow> bool" and env_ok :: "'e \<Rightarrow> bool"
    and fetch :: "'e \<Rightarrow> 'k \<Rightarrow> 'b \<Rightarrow> 's \<Rightarrow> ('r \<times> 'b) option"
    and fits :: "'b \<Rightarrow> 'v \<Rightarrow> bool" and holds :: "'b \<Rightarrow> 'v \<Rightarrow> bool"
    and visible :: "'k \<Rightarrow> ('k \<times> 'v) list \<Rightarrow> bool" and found :: 'r and missing :: 'r +
  fixes put :: "'e \<Rightarrow> 'k \<Rightarrow> 'v \<Rightarrow> 's \<Rightarrow> ('r \<times> 's) option"
    and legal :: "'k \<Rightarrow> 'v \<Rightarrow> ('k \<times> 'v) list \<Rightarrow> bool"
  assumes put_rep:
      "rep s m \<Longrightarrow> env_ok e \<Longrightarrow> legal k v m \<Longrightarrow>
       \<exists>s'. put e k v s = Some (found, s') \<and> rep s' (AList.update k v m)"
begin

text \<open>Reading back what was just written, and reading another key past a write.\<close>

lemma put_fetch_same:
  assumes "rep s m" "env_ok e" "env_ok e'" "legal k v m" "fits b v"
  shows "\<exists>s' b'. put e k v s = Some (found, s') \<and> fetch e' k b s' = Some (found, b') \<and> holds b' v"
proof -
  from put_rep[OF assms(1,2,4)] obtain s' where s': "put e k v s = Some (found, s')"
    "rep s' (AList.update k v m)" by blast
  have "map_of (AList.update k v m) k = Some v" by (simp add: update_conv)
  from fetch_found[OF s'(2) assms(3) this assms(5)] s' show ?thesis by blast
qed

lemma put_fetch_other:
  assumes "rep s m" "env_ok e" "env_ok e'" "legal k v m" "k' \<noteq> k" "map_of m k' = Some w" "fits b w"
  shows "\<exists>s' b'. put e k v s = Some (found, s') \<and> fetch e' k' b s' = Some (found, b') \<and> holds b' w"
proof -
  from put_rep[OF assms(1,2,4)] obtain s' where s': "put e k v s = Some (found, s')"
    "rep s' (AList.update k v m)" by blast
  have "map_of (AList.update k v m) k' = Some w" using assms(5,6) by (simp add: update_conv)
  from fetch_found[OF s'(2) assms(3) this assms(7)] s' show ?thesis by blast
qed

text \<open>Three writes in a row, as a handler makes them.\<close>

lemma put_three:
  assumes "rep s m" "env_ok e1" "env_ok e2" "env_ok e3"
    and "legal k1 v1 m" "legal k2 v2 (AList.update k1 v1 m)"
    and "legal k3 v3 (AList.update k2 v2 (AList.update k1 v1 m))"
  shows "\<exists>s1 s2 s3. put e1 k1 v1 s = Some (found, s1) \<and> put e2 k2 v2 s1 = Some (found, s2) \<and>
    put e3 k3 v3 s2 = Some (found, s3) \<and>
    rep s3 (AList.update k3 v3 (AList.update k2 v2 (AList.update k1 v1 m)))"
proof -
  from put_rep[OF assms(1,2,5)] obtain s1 where s1: "put e1 k1 v1 s = Some (found, s1)"
    "rep s1 (AList.update k1 v1 m)" by blast
  from put_rep[OF s1(2) assms(3,6)] obtain s2 where s2: "put e2 k2 v2 s1 = Some (found, s2)"
    "rep s2 (AList.update k2 v2 (AList.update k1 v1 m))" by blast
  from put_rep[OF s2(2) assms(4,7)] obtain s3 where s3: "put e3 k3 v3 s2 = Some (found, s3)"
    "rep s3 (AList.update k3 v3 (AList.update k2 v2 (AList.update k1 v1 m)))" by blast
  show ?thesis
    by (rule exI[of _ s1], rule exI[of _ s2], rule exI[of _ s3]) (simp add: s1(1) s2(1) s3)
qed

end

section \<open>Encoders with an inverse\<close>

locale codec =
  fixes enc :: "'a \<Rightarrow> 'c" and dec :: "'c \<Rightarrow> 'a option"
  assumes dec_enc: "dec (enc x) = Some x"
begin

lemma enc_inj: "enc x = enc y \<Longrightarrow> x = y"
  by (rule option.inject[THEN iffD1]) (simp only: dec_enc[symmetric])

lemma dec_range: "y \<in> range enc \<Longrightarrow> \<exists>x. dec y = Some x \<and> enc x = y"
  using dec_enc by auto

end

section \<open>Event systems\<close>

text \<open>
  The states a system can be in: its starting states and what its events make of them.
  \<open>start\<close> and \<open>step\<close> are given; a system whose starts satisfy an invariant that every
  event keeps satisfies it throughout, and the facts about one step hold along any run.
\<close>

inductive reaches :: "('s \<Rightarrow> bool) \<Rightarrow> ('s \<Rightarrow> 'e \<Rightarrow> 's \<Rightarrow> bool) \<Rightarrow> 's \<Rightarrow> bool"
  for start :: "'s \<Rightarrow> bool" and step :: "'s \<Rightarrow> 'e \<Rightarrow> 's \<Rightarrow> bool" where
  reaches_start: "start s \<Longrightarrow> reaches start step s"
| reaches_step: "reaches start step s \<Longrightarrow> step s ev s' \<Longrightarrow> reaches start step s'"

fun run_events :: "('s \<Rightarrow> 'e \<Rightarrow> 's \<Rightarrow> bool) \<Rightarrow> 's \<Rightarrow> 'e list \<Rightarrow> 's \<Rightarrow> bool" where
  "run_events step s [] s' \<longleftrightarrow> s' = s"
| "run_events step s (ev # evs) s' \<longleftrightarrow> (\<exists>s1. step s ev s1 \<and> run_events step s1 evs s')"

locale event_system =
  fixes start :: "'s \<Rightarrow> bool" and step :: "'s \<Rightarrow> 'e \<Rightarrow> 's \<Rightarrow> bool" and inv :: "'s \<Rightarrow> bool"
  assumes inv_start: "start s \<Longrightarrow> inv s"
    and inv_step: "inv s \<Longrightarrow> step s ev s' \<Longrightarrow> inv s'"
begin

lemma reaches_inv: "reaches start step s \<Longrightarrow> inv s"
  by (induction rule: reaches.induct) (auto intro: inv_start inv_step)

lemma run_inv: "inv s \<Longrightarrow> run_events step s evs s' \<Longrightarrow> inv s'"
  by (induction evs arbitrary: s) (auto intro: inv_step)

lemma run_from_start: "start s \<Longrightarrow> run_events step s evs s' \<Longrightarrow> inv s'"
  using inv_start run_inv by blast

end

text \<open>A relation between a state and all its successors that every step keeps.\<close>

locale monotone_system = event_system start step inv
  for start :: "'s \<Rightarrow> bool" and step :: "'s \<Rightarrow> 'e \<Rightarrow> 's \<Rightarrow> bool" and inv :: "'s \<Rightarrow> bool" +
  fixes rel :: "'s \<Rightarrow> 's \<Rightarrow> bool"
  assumes rel_refl: "rel s s"
    and rel_trans: "rel a b \<Longrightarrow> rel b c \<Longrightarrow> rel a c"
    and step_rel: "inv s \<Longrightarrow> step s ev s' \<Longrightarrow> rel s s'"
begin

lemma run_rel: "inv s \<Longrightarrow> run_events step s evs s' \<Longrightarrow> rel s s'"
proof (induction evs arbitrary: s)
  case (Cons ev evs)
  then obtain s1 where "step s ev s1" "run_events step s1 evs s'" by auto
  with Cons inv_step step_rel rel_trans show ?case by meson
qed (simp add: rel_refl)

end

end
