(* ===== verification/Flash_Store.thy ===== *)
theory Flash_Store
  imports Flashmem Contracts
begin

text \<open>
  What the flash store promises: the sector holds an association list of keys and values,
  \<open>write\<close> updates it and \<open>read\<close> looks a key up. The theory defines the text a list is
  stored as, proves that the pointer arithmetic of \<open>flashmem.c\<close> implements the list
  operations, and packs the contract into a locale whose client lemmas the handlers use.
\<close>

named_theorems store_simps \<open>the stored text and the routines that scan it\<close>

section \<open>Escaping\<close>

abbreviation BS :: char where "BS \<equiv> CHR 0x5C"

lemma esc_append [store_simps]: "esc (a @ b) = esc a @ esc b"
  by (induction a) auto

lemma esc_counts_length: "esc_counts v = (length v, length (esc v) - length v) \<and> length v \<le> length (esc v)"
  by (induction v) (auto split: prod.splits)

lemma length_esc_le: "length (esc v) \<le> 2 * length v"
  by (induction v) auto

lemma is_cstring_esc [store_simps]: "is_cstring (esc v) \<longleftrightarrow> is_cstring v"
  by (induction v) auto

lemma comma_in_esc [store_simps]: "CHR '','' \<in> set (esc v) \<longleftrightarrow> CHR '','' \<in> set v"
  by (induction v) (auto simp: special_ch_def)

lemma esc_chars_correct:
  assumes "is_cstring v" "malloc_ok dev M_esc"
  shows "esc_chars dev (Some v) = Some (Some (esc v))"
proof -
  have "esc_counts v = (length v, length (esc v) - length v)" "length v \<le> length (esc v)"
    using esc_counts_length[of v] by auto
  moreover have "c_strcpy (replicate (length (esc v) + 1) NUL) 0 (esc v) = Some (esc v @ [NUL])"
    by (simp add: c_strcpy_def blit_def)
  moreover have "c_str (esc v @ [NUL]) = Some (esc v)"
    using assms(1) by (simp add: c_str_terminated is_cstring_esc)
  ultimately show ?thesis using assms by (simp add: esc_chars_def)
qed

section \<open>The stored text\<close>

type_synonym items = "(string \<times> string) list"

definition valid_key :: "string \<Rightarrow> bool" where
  "valid_key k \<longleftrightarrow> k \<noteq> [] \<and> is_cstring k \<and> list_all (\<lambda>c. \<not> special_ch c) k"

definition item_text :: "string \<times> string \<Rightarrow> string" where
  "item_text kv = CHR '','' # fst kv @ CHR ''='' # esc (snd kv)"

definition render :: "items \<Rightarrow> string" where
  "render m = concat (map item_text m)"

lemma render_simps [store_simps]:
  "render [] = []"
  "render (kv # m) = item_text kv @ render m"
  "render (m1 @ m2) = render m1 @ render m2"
  by (simp_all add: render_def)

text \<open>No key may be a proper suffix of another: \<open>strstr\<close> would find it inside the longer one.\<close>

definition suffix_free :: "string list \<Rightarrow> bool" where
  "suffix_free ks \<longleftrightarrow> (\<forall>k \<in> set ks. \<forall>k' \<in> set ks. suffix k k' \<longrightarrow> k = k')"

definition items_wf :: "items \<Rightarrow> bool" where
  "items_wf m \<longleftrightarrow>
     distinct (map fst m) \<and> suffix_free (map fst m) \<and>
     (\<forall>(k, v) \<in> set m.
        valid_key k \<and> is_cstring v \<and> CHR '','' \<notin> set v \<and> length v \<le> MAX_VAL_SIZE)"

text \<open>The abstraction relation between a flash sector and the list it stores.\<close>

definition store_rep :: "string \<Rightarrow> items \<Rightarrow> bool" where
  "store_rep fl m \<longleftrightarrow> length fl = NVS_SIZE \<and> items_wf m \<and> c_str fl = Some (render m)"

text \<open>A text that can follow an item: nothing, or the next item.\<close>

definition boundary :: "string \<Rightarrow> bool" where
  "boundary r \<longleftrightarrow> (case r of [] \<Rightarrow> True | c # _ \<Rightarrow> c = CHR '','')"

lemma boundary_render [store_simps]: "boundary (render m)"
  by (cases m) (auto simp: boundary_def render_def item_text_def)

lemma invalid_key_valid [store_simps]: "valid_key k \<Longrightarrow> \<not> invalid_key k"
  by (auto simp: invalid_key_def valid_key_def find_char_None list_all_iff special_ch_def)

lemma valid_key_no_eq [store_simps]: "valid_key k \<Longrightarrow> CHR ''='' \<notin> set k"
  by (auto simp: valid_key_def list_all_iff special_ch_def)

lemma valid_key_no_comma [store_simps]: "valid_key k \<Longrightarrow> CHR '','' \<notin> set k"
  by (auto simp: valid_key_def list_all_iff special_ch_def)

lemma valid_key_cstring [store_simps]: "valid_key k \<Longrightarrow> is_cstring k"
  by (simp add: valid_key_def)

lemma is_cstring_render [store_simps]: "items_wf m \<Longrightarrow> is_cstring (render m)"
  by (auto simp: items_wf_def render_def item_text_def is_cstring_def valid_key_def
      is_cstring_esc[unfolded is_cstring_def])

section \<open>Where strstr finds a key\<close>

lemma key_match:
  "CHR ''='' \<notin> set k \<Longrightarrow> CHR ''='' \<notin> set q \<Longrightarrow> prefix (k @ ''='') (q @ CHR ''='' # t) \<Longrightarrow> k = q"
proof (induction k arbitrary: q)
  case Nil
  then show ?case by (cases q) auto
next
  case (Cons c k)
  then show ?case by (cases q) auto
qed

lemma no_match_in_value:
  "valid_key k \<Longrightarrow> boundary r \<Longrightarrow> p \<le> length (esc v) \<Longrightarrow> \<not> prefix (k @ ''='') (drop p (esc v @ r))"
proof (induction v arbitrary: k p)
  case Nil
  then show ?case
    by (cases k) (auto simp: boundary_def valid_key_def special_ch_def split: list.splits)
next
  case (Cons c v)
  show ?case
  proof (cases "special_ch c")
    case True
    with Cons.prems have "\<not> prefix (k @ ''='') (BS # c # esc v @ r)" "\<not> prefix (k @ ''='') (c # esc v @ r)"
      by (cases k; auto simp: valid_key_def special_ch_def)+
    moreover have "\<not> prefix (k @ ''='') (drop q (esc v @ r))" if "p = Suc (Suc q)" for q
      using Cons.IH[OF Cons.prems(1,2), of q] that True Cons.prems(3) by simp
    ultimately show ?thesis using True Cons.prems(3)
      by (cases p rule: nat.exhaust; cases "p - 1") auto
  next
    case False
    show ?thesis
    proof (cases p)
      case (Suc q)
      with Cons.IH[OF Cons.prems(1,2), of q] Cons.prems(3) False show ?thesis by simp
    next
      case 0
      obtain d k' where k: "k = d # k'" using Cons.prems(1) by (cases k) (auto simp: valid_key_def)
      show ?thesis
      proof (cases "k' = []")
        case True
        have "\<not> prefix ''='' (esc v @ r)"
          using Cons.prems(2)
          by (cases v) (auto simp: boundary_def special_ch_def split: list.splits if_splits)
        with True 0 False k show ?thesis by auto
      next
        case False2: False
        then have "valid_key k'" using Cons.prems(1) k by (auto simp: valid_key_def)
        from Cons.IH[OF this Cons.prems(2), of 0] 0 False k show ?thesis by auto
      qed
    qed
  qed
qed

lemma find_key_skip_item:
  assumes k: "valid_key k" and kj: "valid_key (fst kv)" and ns: "\<not> suffix k (fst kv)" and r: "boundary r"
  shows "find_sub (k @ ''='') (item_text kv @ r) =
         map_option ((+) (length (item_text kv))) (find_sub (k @ ''='') r)"
proof (rule find_sub_skip)
  fix p assume p: "p < length (item_text kv)"
  let ?kj = "fst kv" and ?v = "snd kv"
  consider "p = 0" | q where "p = Suc q" "q \<le> length ?kj"
    | q where "p = Suc (Suc (length ?kj + q))" "q \<le> length (esc ?v)"
  proof -
    assume a: "p = 0 \<Longrightarrow> thesis" "\<And>q. p = Suc q \<Longrightarrow> q \<le> length ?kj \<Longrightarrow> thesis"
      "\<And>q. p = Suc (Suc (length ?kj + q)) \<Longrightarrow> q \<le> length (esc ?v) \<Longrightarrow> thesis"
    show thesis
      using p a(1) a(2)[of "p - 1"] a(3)[of "p - Suc (Suc (length ?kj))"]
      by (cases "p = 0"; cases "p \<le> Suc (length ?kj)") (auto simp: item_text_def)
  qed
  then show "\<not> prefix (k @ ''='') (drop p (item_text kv @ r))"
  proof cases
    case 1
    with k show ?thesis by (cases k) (auto simp: item_text_def valid_key_def special_ch_def)
  next
    case (2 q)
    then have d: "drop p (item_text kv @ r) = drop q ?kj @ CHR ''='' # esc ?v @ r"
      by (simp add: item_text_def)
    have ne: "CHR ''='' \<notin> set k" "CHR ''='' \<notin> set (drop q ?kj)"
      using valid_key_no_eq[OF k] valid_key_no_eq[OF kj] by (auto dest: in_set_dropD)
    show ?thesis
    proof
      assume "prefix (k @ ''='') (drop p (item_text kv @ r))"
      with d key_match[OF ne] have "k = drop q ?kj" by auto
      with ns show False by (simp add: suffix_drop)
    qed
  next
    case (3 q)
    then have "drop p (item_text kv @ r) = drop q (esc ?v @ r)" by (simp add: item_text_def)
    with no_match_in_value[OF k r 3(2)] show ?thesis by simp
  qed
qed

lemma find_key_here:
  "valid_key k \<Longrightarrow> find_sub (k @ ''='') (item_text (k, v) @ r) = Some 1"
proof -
  assume k: "valid_key k"
  then have "\<not> prefix (k @ ''='') (item_text (k, v) @ r)"
    by (cases k) (auto simp: item_text_def valid_key_def special_ch_def)
  moreover have "find_sub (k @ ''='') (k @ CHR ''='' # esc v @ r) = Some 0"
    using find_sub_here[of "k @ ''=''" "esc v @ r"] by simp
  ultimately show ?thesis by (simp add: item_text_def)
qed

lemma find_key_absent:
  assumes "valid_key k" "\<forall>(k', v') \<in> set m. valid_key k' \<and> \<not> suffix k k'"
  shows "find_sub (k @ ''='') (render m) = None"
  using assms
proof (induction m)
  case (Cons kv m)
  then show ?case
    by (auto simp: render_simps find_key_skip_item boundary_render split: prod.splits)
qed (auto simp: render_def valid_key_def)

lemma find_key_present:
  assumes "valid_key k" "\<forall>(k', v') \<in> set pre. valid_key k' \<and> \<not> suffix k k'" "boundary r"
  shows "find_sub (k @ ''='') (render pre @ item_text (k, v) @ r) = Some (length (render pre) + 1)"
  using assms
proof (induction pre)
  case Nil
  then show ?case using find_key_here[of k v r] by (simp add: render_simps)
next
  case (Cons kv pre)
  have b: "boundary (render pre @ item_text (k, v) @ r)"
    by (cases pre) (auto simp: boundary_def render_def item_text_def)
  from Cons show ?case
    using find_key_skip_item[OF Cons.prems(1) _ _ b, of kv]
    by (auto simp: render_simps split: prod.splits)
qed

section \<open>Where a value ends, and unescaping\<close>

lemma scan_val_end_value:
  "CHR '','' \<notin> set v \<Longrightarrow> boundary r \<Longrightarrow>
   scan_val_end (esc v @ r) = (if r = [] then None else Some (length (esc v)))"
proof (induction v)
  case Nil
  then show ?case by (cases r) (auto simp: boundary_def)
next
  case (Cons c v)
  then show ?case by (auto simp: special_ch_def)
qed

lemma get_val_end_value:
  "CHR '','' \<notin> set v \<Longrightarrow> boundary r \<Longrightarrow> get_val_end (esc v @ r) = (DT_ERR_OK, length (esc v))"
  by (simp add: get_val_end_def scan_val_end_value)

text \<open>An escaped comma ends the value too, one character after its backslash.\<close>

lemma scan_val_end_comma:
  "CHR '','' \<notin> set a \<Longrightarrow> scan_val_end (esc (a @ CHR '','' # b) @ r) = Some (length (esc a) + 1)"
proof (induction a)
  case Nil
  then show ?case by (simp add: special_ch_def)
next
  case (Cons c v)
  then show ?case by (auto simp: special_ch_def)
qed

lemma get_val_end_comma:
  "CHR '','' \<notin> set a \<Longrightarrow>
   get_val_end (esc (a @ CHR '','' # b) @ r) = (DT_ERR_OK, length (esc a) + 1)"
  by (simp add: get_val_end_def scan_val_end_comma)

text \<open>The loop in place; \<open>t\<close> is a backslash left without its character, or nothing.\<close>

lemma unesc_loop_esc:
  assumes "is_cstring v" "t = [] \<or> t = [BS]"
  shows "\<exists>r'. unesc_loop (d @ esc v @ t @ NUL # r) (length d) (length d + length (esc v) + length t)
              = Some (d @ v @ NUL # r') \<and> length (d @ v @ NUL # r') = length (d @ esc v @ t @ NUL # r)"
  using assms(1)
proof (induction v arbitrary: d r)
  case Nil
  show ?case
  proof (cases "t = []")
    case True
    then show ?thesis by (subst unesc_loop.simps) simp
  next
    case False
    with assms(2) have "t = [BS]" by simp
    then have "unesc_loop (d @ esc [] @ t @ NUL # r) (length d) (length d + length (esc []) + length t)
               = unesc_loop (d @ NUL # NUL # r) (length d + 1) (length d)"
      by (subst unesc_loop.simps) (simp add: rd_def c_strcpy_def blit_append)
    also have "\<dots> = Some (d @ NUL # NUL # r)" by (subst unesc_loop.simps) simp
    finally show ?thesis using \<open>t = [BS]\<close> by auto
  qed
next
  case (Cons c v)
  have t: "is_cstring t" using assms(2) by auto
  from Cons.prems have v: "is_cstring v" "c \<noteq> NUL" by simp_all
  show ?case
  proof (cases "special_ch c")
    case True
    have s: "c_str (c # esc v @ t @ NUL # r) = Some (c # esc v @ t)"
      using c_str_terminated[of "c # esc v @ t" r] v t by (simp add: is_cstring_esc)
    have "unesc_loop (d @ esc (c # v) @ t @ NUL # r) (length d) (length d + length (esc (c # v)) + length t)
          = unesc_loop ((d @ [c]) @ esc v @ t @ NUL # NUL # r) (length (d @ [c]))
              (length (d @ [c]) + length (esc v) + length t)"
      using True s by (subst unesc_loop.simps) (simp add: rd_def c_strcpy_def blit_append)
    with Cons.IH[OF v(1), of "d @ [c]" "NUL # r"] True show ?thesis by auto
  next
    case False
    have "unesc_loop (d @ esc (c # v) @ t @ NUL # r) (length d) (length d + length (esc (c # v)) + length t)
          = unesc_loop ((d @ [c]) @ esc v @ t @ NUL # r) (length (d @ [c]))
              (length (d @ [c]) + length (esc v) + length t)"
      using False by (subst unesc_loop.simps) (simp add: rd_def special_ch_def)
    with Cons.IH[OF v(1), of "d @ [c]" r] False show ?thesis by auto
  qed
qed

section \<open>Reading\<close>

text \<open>The documented behaviour of the SDK's flash functions, with every allocation succeeding.\<close>

definition flash_dev_ok :: "flash_dev \<Rightarrow> bool" where
  "flash_dev_ok dev \<longleftrightarrow>
     (\<forall>s. malloc_ok dev s) \<and> dev_executes dev \<and>
     (\<forall>fl n. n \<le> length fl \<longrightarrow> dev_erase dev fl n = replicate n (CHR 0xFF) @ drop n fl) \<and>
     (\<forall>fl d. length d \<le> length fl \<longrightarrow> take (length d) fl = replicate (length d) (CHR 0xFF) \<longrightarrow>
        dev_program dev fl d = d @ drop (length d) fl)"

lemma flash_dev_okD [store_simps]:
  "flash_dev_ok dev \<Longrightarrow> malloc_ok dev s"
  "flash_dev_ok dev \<Longrightarrow> dev_executes dev"
  by (simp_all add: flash_dev_ok_def)

lemma store_repD:
  assumes "store_rep fl m"
  obtains r where "fl = render m @ NUL # r" "length fl = 4096" "items_wf m" "is_cstring (render m)"
  using assms that by (auto simp: store_rep_def NVS_SIZE_def c_str_eq_Some_iff)

lemma store_repI:
  "length fl = 4096 \<Longrightarrow> items_wf m \<Longrightarrow> fl = render m @ NUL # r \<Longrightarrow> store_rep fl m"
  by (simp add: store_rep_def NVS_SIZE_def c_str_terminated is_cstring_render)

text \<open>The other keys of a list do not hide \<open>k\<close> from \<open>strstr\<close>.\<close>

definition key_visible :: "string \<Rightarrow> items \<Rightarrow> bool" where
  "key_visible k m \<longleftrightarrow> (\<forall>k' \<in> set (map fst m). suffix k k' \<longrightarrow> k' = k)"

lemma items_wf_visible: "items_wf m \<Longrightarrow> k \<in> set (map fst m) \<Longrightarrow> key_visible k m"
  unfolding key_visible_def items_wf_def suffix_free_def by blast

lemma items_wf_split:
  assumes "items_wf m" "map_of m k = Some v"
  obtains pre post where "m = pre @ (k, v) # post" "k \<notin> set (map fst pre)"
    "valid_key k" "is_cstring v" "CHR '','' \<notin> set v"
    "\<forall>(k', v') \<in> set pre. valid_key k' \<and> \<not> suffix k k'"
proof -
  from map_of_SomeD[OF assms(2)] obtain pre post where m: "m = pre @ (k, v) # post"
    by (meson split_list)
  with assms(1) have "k \<notin> set (map fst pre)" by (auto simp: items_wf_def)
  moreover have "\<not> suffix k k'" if "(k', v') \<in> set pre" for k' v'
  proof
    assume "suffix k k'"
    moreover have "k \<in> set (map fst m)" using m by simp
    moreover have "k' \<in> fst ` set pre" using that by (rule image_eqI[rotated]) simp
    moreover from this have "k' \<in> set (map fst m)" using m by simp
    ultimately have "k = k'" using assms(1) unfolding items_wf_def suffix_free_def by blast
    with \<open>k' \<in> fst ` set pre\<close> \<open>k \<notin> set (map fst pre)\<close> show False by simp
  qed
  moreover have "\<forall>(k', v') \<in> set m. valid_key k' \<and> is_cstring v' \<and> CHR '','' \<notin> set v'"
    using assms(1) by (auto simp: items_wf_def)
  moreover from this m have "\<forall>(k', v') \<in> set pre. valid_key k'" by auto
  ultimately show ?thesis using that[OF m] m by fastforce
qed

lemma find_key_none:
  "valid_key k \<Longrightarrow> items_wf m \<Longrightarrow> key_visible k m \<Longrightarrow> k \<notin> set (map fst m) \<Longrightarrow>
   find_sub (k @ ''='') (render m) = None"
  by (rule find_key_absent) (auto simp: items_wf_def key_visible_def)

text \<open>
  What \<open>read\<close> delivers for the first item of a key, whatever the value: \<open>esc x @ t\<close> is the
  text up to the end that \<open>get_val_end\<close> finds.
\<close>

lemma read_val_item:
  assumes fl: "c_str fl = Some (render pre @ item_text (k, v) @ r)"
    and k: "valid_key k" and b: "boundary r" and mk: "malloc_ok dev M_read_key_search"
    and pre: "\<forall>(k', v') \<in> set pre. valid_key k' \<and> \<not> suffix k k'"
    and ve: "get_val_end (esc v @ r) = (DT_ERR_OK, length (esc x @ t))"
      "take (length (esc x @ t)) (esc v @ r) = esc x @ t"
    and x: "is_cstring x" "t = [] \<or> t = [BS]"
    and out: "length (esc x @ t) < length out"
  shows "\<exists>r'. read_val dev k out fl = Some (DT_ERR_OK, x @ NUL # r') \<and> length (x @ NUL # r') = length out"
proof -
  let ?s = "render pre @ item_text (k, v) @ r"
  let ?e = "length (esc x @ t)"
  have loc: "find_sub (k @ ''='') ?s = Some (length (render pre) + 1)"
    by (rule find_key_present[OF k pre b])
  have d: "drop (length (render pre) + 1) ?s = k @ CHR ''='' # esc v @ r"
    by (simp add: item_text_def)
  have ass: "find_char (CHR ''='') (k @ CHR ''='' # esc v @ r) = Some (length k)"
    by (rule find_char_first) (rule valid_key_no_eq[OF k])
  have val: "drop (length (render pre) + 1 + length k + 1) ?s = esc v @ r"
    by (simp add: item_text_def)
  obtain r1 where out2: "do { out1 \<leftarrow> blit out 0 (esc x @ t); wr out1 ?e NUL } = Some (esc x @ t @ NUL # r1)"
    and len: "length (esc x @ t @ NUL # r1) = length out"
  proof -
    have "blit out 0 (esc x @ t) = Some (esc x @ t @ drop ?e out)"
      using out by (simp add: blit_def)
    moreover obtain c r1 where cr: "drop ?e out = c # r1" using out by (cases "drop ?e out") auto
    moreover have "wr (esc x @ t @ c # r1) ?e NUL = Some (esc x @ t @ NUL # r1)"
      by (simp add: wr_def list_update_append)
    moreover have "length (esc x @ t @ NUL # r1) = length out"
      using arg_cong[OF cr, of length] out by simp
    ultimately show ?thesis using that by simp
  qed
  have t: "is_cstring t" using x(2) by auto
  have cs: "c_str (esc x @ t @ NUL # r1) = Some (esc x @ t)"
    using c_str_terminated[of "esc x @ t" r1] x t by (simp add: is_cstring_esc)
  obtain r' where u: "unesc_loop (esc x @ t @ NUL # r1) 0 ?e = Some (x @ NUL # r')"
    and len': "length (x @ NUL # r') = length (esc x @ t @ NUL # r1)"
    using unesc_loop_esc[OF x, of "[]" r1] by auto
  have body: "do { out1 \<leftarrow> blit out 0 (esc x @ t); out2 \<leftarrow> wr out1 ?e NUL; s \<leftarrow> c_str out2;
                   out3 \<leftarrow> unesc_loop out2 0 (length s); Some (DT_ERR_OK, out3) }
              = Some (DT_ERR_OK, x @ NUL # r')"
    using out2 cs u by (auto simp: bind_eq_Some_conv)
  have "read_val dev k out fl = Some (DT_ERR_OK, x @ NUL # r')"
    unfolding read_val_def
    using fl k mk loc ass val ve body by (simp add: invalid_key_valid require_bind d[simplified])
  with len len' show ?thesis by auto
qed

theorem read_val_present:
  assumes "store_rep fl m" "map_of m k = Some v" "malloc_ok dev M_read_key_search" "length (esc v) < length out"
  shows "\<exists>r'. read_val dev k out fl = Some (DT_ERR_OK, v @ NUL # r') \<and> length (v @ NUL # r') = length out"
proof -
  from assms(1) have wf: "items_wf m" and fl: "c_str fl = Some (render m)" by (auto simp: store_rep_def)
  obtain pre post where m: "m = pre @ (k, v) # post" "k \<notin> set (map fst pre)"
    "valid_key k" "is_cstring v" "CHR '','' \<notin> set v"
    "\<forall>(k', v') \<in> set pre. valid_key k' \<and> \<not> suffix k k'"
    by (rule items_wf_split[OF wf assms(2)])
  have b: "boundary (render post)" by (rule boundary_render)
  have "c_str fl = Some (render pre @ item_text (k, v) @ render post)"
    using fl m(1) by (simp add: render_simps)
  from read_val_item[OF this m(3) b assms(3) m(6), of v "[]" out] show ?thesis
    using get_val_end_value[OF m(5) b] m(4) assms(4) by simp
qed

theorem read_val_absent:
  assumes "store_rep fl m" "map_of m k = None" "valid_key k" "key_visible k m" "malloc_ok dev M_read_key_search"
  shows "read_val dev k out fl = Some (DT_ERR_KEYNOTFOUND, out)"
proof -
  have "find_sub (k @ ''='') (render m) = None"
    using assms by (intro find_key_none) (auto simp: store_rep_def map_of_eq_None_iff)
  with assms show ?thesis by (simp add: read_val_def store_rep_def invalid_key_valid require_bind)
qed

section \<open>Splicing and writing\<close>

lemma splice_size_exact:
  "splice_size (a + b + c) a c r = of_nat (2 * a + b + r)"
  by (simp add: splice_size_def)

lemma splice_check:
  "2 * a + b + r < 2 ^ 32 \<Longrightarrow>
   splice_size (a + b + c) a c r > of_nat NVS_SIZE \<longleftrightarrow> 2 * a + b + r > 4096"
  unfolding splice_size_exact NVS_SIZE_def
  by (subst word_of_nat_less_iff) (simp add: take_bit_nat_eq_self)

lemma splice_replaces:
  assumes cs: "is_cstring (A @ B @ C)" "is_cstring repl"
    and len: "length (A @ B @ C @ NUL # r) = 4096"
    and check: "2 * length A + length B + length repl \<le> 4096"
    and fits: "length A + length repl + length C < 4096"
    and mem: "malloc_ok dev M_chunk_pre" "malloc_ok dev M_chunk_post"
  shows "splice dev (A @ B @ C @ NUL # r) (length A) (length A + length B) repl =
         Some (DT_ERR_OK, A @ repl @ C @ replicate (4096 - (length A + length repl + length C)) NUL)"
proof -
  let ?buf = "A @ B @ C @ NUL # r"
  let ?k = "4096 - (length A + length repl + length C)"
  have k: "4096 - length A - length repl = length C + ?k" "0 < ?k" using fits by auto
  have s: "c_str ?buf = Some (A @ B @ C)"
    using c_str_terminated[OF cs(1), of r] by simp
  have tail: "c_str (drop (length A + length B) ?buf) = Some C"
    using cs(1) by (simp add: c_str_terminated)
  have "\<not> splice_size (length (A @ B @ C)) (length A) (length C) (length repl) > of_nat NVS_SIZE"
    using splice_check[of "length A" "length B" "length repl" "length C"] check by (simp add: add.assoc)
  moreover have "rd_bytes ?buf 0 (length A) = Some A"
    "rd_bytes ?buf (length A + length B) (length C) = Some C"
    by (simp_all add: rd_bytes_def)
  moreover have "blit ?buf 0 (replicate NVS_SIZE NUL) = Some (replicate 4096 NUL)"
    using len by (simp add: blit_def NVS_SIZE_def)
  moreover have "blit (replicate 4096 NUL) 0 A = Some (A @ replicate (4096 - length A) NUL)"
    using len by (simp add: blit_def)
  moreover have "blit (A @ replicate (4096 - length A) NUL) (length A) repl
      = Some (A @ repl @ replicate (length C + ?k) NUL)"
    using fits k(1) by (subst blit_append) auto
  moreover have "c_str (drop (length A) (A @ repl @ replicate (length C + ?k) NUL)) = Some repl"
    using c_str_append[OF cs(2)] k(2) by (cases "length C + ?k") auto
  moreover have "blit (A @ repl @ replicate (length C + ?k) NUL) (length A + length repl) C
      = Some (A @ repl @ C @ replicate ?k NUL)"
    using blit_append[of "A @ repl" "length A + length repl" C "replicate (length C + ?k) NUL"] by simp
  ultimately show ?thesis
    using s tail mem by (simp add: splice_def require_bind Let_def)
qed

text \<open>
  The condition under which a write succeeds: the new text leaves room for its terminator,
  is not a whole number of flash pages, and an existing key passes the size check of
  \<open>splice\<close> (old and new text together at most 4096 characters is enough).
\<close>

definition write_room :: "string \<Rightarrow> string \<Rightarrow> items \<Rightarrow> bool" where
  "write_room k v m \<longleftrightarrow>
     (let n = length (render m); n' = length (render (AList.update k v m))
      in n' < NVS_SIZE \<and> n' mod 256 \<noteq> 0 \<and> (k \<in> set (map fst m) \<longrightarrow> n + n' \<le> NVS_SIZE))"

text \<open>A key and value the store can take, given what it holds.\<close>

definition legal_put :: "string \<Rightarrow> string \<Rightarrow> items \<Rightarrow> bool" where
  "legal_put k v m \<longleftrightarrow>
     valid_key k \<and> is_cstring v \<and> CHR '','' \<notin> set v \<and> length v \<le> MAX_VAL_SIZE \<and>
     suffix_free (k # map fst m) \<and> write_room k v m"

lemma update_new: "k \<notin> set (map fst m) \<Longrightarrow> AList.update k v m = m @ [(k, v)]"
  by (induction m) auto

lemma update_here: "k \<notin> set (map fst pre) \<Longrightarrow>
  AList.update k v (pre @ (k, old) # post) = pre @ (k, v) # post"
  by (induction pre) auto

lemma items_wf_update:
  assumes "items_wf m" "valid_key k" "is_cstring v" "CHR '','' \<notin> set v" "length v \<le> MAX_VAL_SIZE"
    "suffix_free (k # map fst m)"
  shows "items_wf (AList.update k v m)"
proof -
  have "distinct (map fst (AList.update k v m))"
    using assms(1) by (simp add: items_wf_def distinct_update)
  moreover have keys: "set (map fst (AList.update k v m)) = insert k (set (map fst m))"
    by (induction m) auto
  moreover have "set (AList.update k v m) \<subseteq> insert (k, v) (set m)"
    by (induction m) auto
  ultimately show ?thesis using assms by (auto simp: items_wf_def suffix_free_def)
qed

lemma initialize_flash_noop:
  assumes "NUL \<in> set (take NVS_SIZE fl)"
  shows "initialize_flash dev False fl = Some (DT_ERR_OK, fl)"
proof -
  have "list_ex (\<lambda>c. c \<noteq> CHR 0xFF) (take NVS_SIZE fl)"
    using assms by (force simp: list_ex_iff)
  then show ?thesis by (simp add: initialize_flash_def)
qed

lemma store_rep_initialized:
  assumes "store_rep fl m" shows "initialize_flash dev False fl = Some (DT_ERR_OK, fl)"
proof -
  obtain r where "fl = render m @ NUL # r" "length fl = 4096" by (rule store_repD[OF assms])
  then have "NUL \<in> set (take NVS_SIZE fl)" by (simp add: NVS_SIZE_def)
  then show ?thesis by (rule initialize_flash_noop)
qed

text \<open>The part of \<open>upsert_key\<close> before the search, with every allocation succeeding.\<close>

lemma upsert_key_start:
  assumes "valid_key k" "is_cstring v" "flash_dev_ok dev" "initialize_flash dev False fl = Some (e, fl')"
    and "c_str buf = Some s"
  shows "upsert_key dev k v buf fl =
    (case find_sub (k @ ''='') s of
       None \<Rightarrow>
         (if length (k @ ''='') + length (esc v) + length s + 1 > NVS_SIZE - 1
          then Some (DT_ERR_FLASHMEMSIZE, buf, fl')
          else do {
            buf1 \<leftarrow> wr buf (length s) (CHR '','');
            buf2 \<leftarrow> c_strcpy buf1 (length s + 1) (k @ ''='' @ esc v);
            Some (DT_ERR_OK, buf2, fl')
          })
     | Some key_loc \<Rightarrow> do {
         (_, buf') \<leftarrow> splice dev buf key_loc
             (case get_next_item (drop key_loc s) of Some i \<Rightarrow> key_loc + i | None \<Rightarrow> length s) (k @ ''='' @ esc v);
         Some (DT_ERR_OK, buf', fl')
       })"
  using assms esc_chars_correct[OF assms(2) flash_dev_okD(1)[OF assms(3)]]
  by (cases "find_sub (k @ ''='') s") (simp_all add: upsert_key_def invalid_key_valid flash_dev_okD require_bind Let_def)

lemma upsert_new:
  assumes rep: "store_rep fl m" and dev: "flash_dev_ok dev"
    and k: "valid_key k" "k \<notin> set (map fst m)" "key_visible k m" and v: "is_cstring v"
    and room: "length (render (m @ [(k, v)])) < NVS_SIZE"
  shows "\<exists>r. upsert_key dev k v fl fl = Some (DT_ERR_OK, render (m @ [(k, v)]) @ NUL # r, fl) \<and>
             length (render (m @ [(k, v)]) @ NUL # r) = length fl"
proof -
  obtain r where fl: "fl = render m @ NUL # r" "length fl = 4096" "items_wf m" "is_cstring (render m)"
    by (rule store_repD[OF rep])
  have s: "c_str fl = Some (render m)" using rep by (simp add: store_rep_def)
  let ?kv = "k @ ''='' @ esc v"
  have n: "length (render m) + 1 + length ?kv < 4096"
    using room by (simp add: render_simps item_text_def NVS_SIZE_def)
  have "find_sub (k @ ''='') (render m) = None"
    using k fl(3) by (intro find_key_none) auto
  moreover have "wr fl (length (render m)) (CHR '','') = Some (render m @ CHR '','' # r)"
    using fl(1) by (simp add: wr_def list_update_append)
  moreover have "c_strcpy (render m @ CHR '','' # r) (length (render m) + 1) ?kv =
      Some (render m @ CHR '','' # ?kv @ NUL # drop (length ?kv + 1) r)"
  proof -
    have "length (?kv @ [NUL]) \<le> length r" using n fl(2) unfolding fl(1) by simp
    then show ?thesis
      using blit_append[of "render m @ '',''" "length (render m) + 1" "?kv @ [NUL]" r]
      by (simp add: c_strcpy_def)
  qed
  ultimately have "upsert_key dev k v fl fl =
      Some (DT_ERR_OK, render (m @ [(k, v)]) @ NUL # drop (length ?kv + 1) r, fl)"
    using upsert_key_start[OF k(1) v dev store_rep_initialized[OF rep] s] n
    by (simp add: NVS_SIZE_def render_simps item_text_def)
  moreover have "length (render (m @ [(k, v)]) @ NUL # drop (length ?kv + 1) r) = length fl"
    using n fl by (simp add: render_simps item_text_def)
  ultimately show ?thesis by blast
qed

lemma get_next_item_value:
  assumes "valid_key k" "CHR '','' \<notin> set v" "boundary r"
  shows "(case get_next_item (k @ CHR ''='' # esc v @ r) of Some i \<Rightarrow> a + i
          | None \<Rightarrow> a + length (k @ CHR ''='' # esc v @ r)) = a + (length k + 1 + length (esc v))"
proof (cases r)
  case Nil
  then have "get_next_item (k @ CHR ''='' # esc v @ r) = None"
    using assms by (simp add: get_next_item_def find_char_None valid_key_no_comma comma_in_esc)
  with Nil show ?thesis by simp
next
  case (Cons c r')
  with assms(3) have "c = CHR '',''" by (simp add: boundary_def)
  with Cons have "get_next_item (k @ CHR ''='' # esc v @ r) = Some (length (k @ CHR ''='' # esc v))"
    using assms find_char_first[of "CHR '',''" "k @ CHR ''='' # esc v" r']
    by (simp add: get_next_item_def valid_key_no_comma comma_in_esc)
  then show ?thesis by simp
qed

text \<open>A key that is present is found, and its item is the region spliced.\<close>

lemma upsert_locates:
  assumes rep: "store_rep fl (pre @ (k, old) # post)" and dev: "flash_dev_ok dev" and v: "is_cstring v"
  shows "upsert_key dev k v fl fl = do {
     (_, buf') \<leftarrow> splice dev fl (length (render pre @ '',''))
       (length (render pre @ '','') + length (k @ CHR ''='' # esc old)) (k @ ''='' @ esc v);
     Some (DT_ERR_OK, buf', fl)
   }"
proof -
  let ?m = "pre @ (k, old) # post"
  have mwf: "items_wf ?m" by (rule store_repD[OF rep])
  have wf: "valid_key k" "CHR '','' \<notin> set old" "k \<notin> set (map fst pre)"
    using mwf by (auto simp: items_wf_def)
  have vis: "\<forall>(k', v') \<in> set pre. valid_key k' \<and> \<not> suffix k k'"
  proof (clarify)
    fix k' v' assume i: "(k', v') \<in> set pre"
    then have "k' \<in> set (map fst pre)" by force
    with wf(3) items_wf_visible[OF mwf, of k] have "\<not> suffix k k'"
      by (auto simp: key_visible_def)
    with mwf i show "valid_key k' \<and> \<not> suffix k k'" by (auto simp: items_wf_def)
  qed
  let ?A = "render pre @ '',''" and ?B = "k @ CHR ''='' # esc old" and ?C = "render post"
  have parts: "render ?m = ?A @ ?B @ ?C" by (simp add: render_simps item_text_def)
  have s: "c_str fl = Some (render ?m)" using rep by (simp add: store_rep_def)
  have loc: "find_sub (k @ ''='') (render ?m) = Some (length ?A)"
    using find_key_present[OF wf(1) vis boundary_render] by (simp add: render_simps)
  have stop: "(case get_next_item (drop (length ?A) (render ?m)) of Some i \<Rightarrow> length ?A + i
      | None \<Rightarrow> length (render ?m)) = length ?A + length ?B"
  proof -
    have "drop (length ?A) (render ?m) = ?B @ ?C" by (simp add: parts)
    moreover have "length (render ?m) = length ?A + length (?B @ ?C)" by (simp add: parts)
    ultimately show ?thesis
      using get_next_item_value[OF wf(1,2) boundary_render[of post], of "length ?A"]
      by (simp split: option.splits)
  qed
  show ?thesis
    unfolding upsert_key_start[OF wf(1) v dev store_rep_initialized[OF rep] s]
    by (simp only: loc option.case stop)
qed

lemma upsert_existing:
  assumes rep: "store_rep fl (pre @ (k, old) # post)" and dev: "flash_dev_ok dev"
    and v: "is_cstring v"
    and room: "length (render (pre @ (k, v) # post)) < NVS_SIZE"
    and check: "length (render (pre @ (k, old) # post)) + length (render (pre @ (k, v) # post)) \<le> NVS_SIZE"
  shows "\<exists>r. upsert_key dev k v fl fl = Some (DT_ERR_OK, render (pre @ (k, v) # post) @ NUL # r, fl) \<and>
             length (render (pre @ (k, v) # post) @ NUL # r) = length fl"
proof -
  let ?m = "pre @ (k, old) # post"
  obtain r where fl: "fl = render ?m @ NUL # r" "length fl = 4096" "items_wf ?m" "is_cstring (render ?m)"
    by (rule store_repD[OF rep])
  let ?A = "render pre @ '',''" and ?B = "k @ CHR ''='' # esc old" and ?C = "render post"
  let ?kv = "k @ ''='' @ esc v"
  have k: "valid_key k" using fl(3) by (simp add: items_wf_def)
  have parts: "render ?m = ?A @ ?B @ ?C" "render (pre @ (k, v) # post) = ?A @ ?kv @ ?C"
    by (simp_all add: render_simps item_text_def)
  have eq: "fl = ?A @ ?B @ ?C @ NUL # r" using fl(1) parts(1) by simp
  have spl: "splice dev fl (length ?A) (length ?A + length ?B) ?kv =
      Some (DT_ERR_OK, ?A @ ?kv @ ?C @ replicate (4096 - (length ?A + length ?kv + length ?C)) NUL)"
  proof (subst eq, rule splice_replaces)
    show "is_cstring (?A @ ?B @ ?C)" using fl(4) parts(1) by simp
    show "is_cstring ?kv" using k v by (simp add: valid_key_cstring is_cstring_esc)
    show "length (?A @ ?B @ ?C @ NUL # r) = 4096" using fl(2) eq by simp
    show "2 * length ?A + length ?B + length ?kv \<le> 4096"
      using check unfolding parts NVS_SIZE_def by simp
    show "length ?A + length ?kv + length ?C < 4096" using room unfolding parts NVS_SIZE_def by simp
  qed (use dev in \<open>simp_all add: flash_dev_okD\<close>)
  have u: "upsert_key dev k v fl fl = Some (DT_ERR_OK,
      render (pre @ (k, v) # post) @ replicate (4096 - (length ?A + length ?kv + length ?C)) NUL, fl)"
    unfolding upsert_locates[OF rep dev v]
    by (simp only: spl parts(2) append_assoc Option.bind.simps prod.case)
  obtain j where j: "4096 - (length ?A + length ?kv + length ?C) = Suc j"
    using room unfolding parts NVS_SIZE_def by (cases "4096 - (length ?A + length ?kv + length ?C)") auto
  then have "length (render (pre @ (k, v) # post) @ NUL # replicate j NUL) = length fl"
    using fl(2) room unfolding parts NVS_SIZE_def by simp
  with u j show ?thesis by auto
qed

text \<open>
  When the code's size check refuses the splice, the new value is dropped and success is
  reported all the same.
\<close>

lemma upsert_refused:
  assumes rep: "store_rep fl (pre @ (k, old) # post)" and dev: "flash_dev_ok dev" and v: "is_cstring v"
    and full: "2 * (length (render pre) + 1) + length (item_text (k, old)) + length (item_text (k, v)) > NVS_SIZE + 2"
    and small: "length v \<le> MAX_VAL_SIZE"
  shows "upsert_key dev k v fl fl = Some (DT_ERR_OK, fl, fl)"
proof -
  let ?m = "pre @ (k, old) # post"
  obtain r where fl: "fl = render ?m @ NUL # r" "length fl = 4096" "is_cstring (render ?m)"
    by (rule store_repD[OF rep])
  let ?A = "render pre @ '',''" and ?B = "k @ CHR ''='' # esc old" and ?C = "render post"
  let ?kv = "k @ ''='' @ esc v"
  have parts: "render ?m = ?A @ ?B @ ?C" by (simp add: render_simps item_text_def)
  have s: "c_str fl = Some (render ?m)" using rep by (simp add: store_rep_def)
  have cC: "is_cstring ?C" using fl(3) unfolding parts by simp
  have "drop (length ?A + length ?B) fl = ?C @ NUL # r" using fl(1) parts by simp
  then have t: "c_str (drop (length ?A + length ?B) fl) = Some ?C" using cC by (simp add: c_str_terminated)
  have "length fl = length ?A + length ?B + length ?C + 1 + length r" unfolding fl(1) parts by simp
  then have lens: "length ?A + length ?B \<le> 4096" using fl(2) by linarith
  have "length ?kv \<le> 4096 + 513"
    using lens length_esc_le[of v] small by (simp add: MAX_VAL_SIZE_def)
  then have "splice_size (length ?A + length ?B + length ?C) (length ?A) (length ?C) (length ?kv) > of_nat NVS_SIZE"
    using splice_check[of "length ?A" "length ?B" "length ?kv" "length ?C"] full lens
    by (simp add: NVS_SIZE_def item_text_def)
  moreover have "length (render ?m) = length ?A + length ?B + length ?C" by (simp add: parts)
  ultimately have "splice dev fl (length ?A) (length ?A + length ?B) ?kv = Some (DT_ERR_FLASHMEMSIZE, fl)"
    unfolding splice_def s t by simp
  then show ?thesis unfolding upsert_locates[OF rep dev v] by simp
qed

lemma flash_program_page:
  assumes "flash_dev_ok dev" "length fl = NVS_SIZE" "length buf = NVS_SIZE" "n \<le> NVS_SIZE"
  shows "flash_safe_execute dev \<lparr>op_data = buf, erase_count = NVS_SIZE, prog_count = n\<rparr> fl =
         Some (take n buf @ replicate (NVS_SIZE - n) (CHR 0xFF))"
proof -
  have "dev_erase dev fl NVS_SIZE = replicate NVS_SIZE (CHR 0xFF)"
    using assms by (simp add: flash_dev_ok_def)
  moreover have "dev_program dev (replicate NVS_SIZE (CHR 0xFF)) (take n buf) =
      take n buf @ replicate (NVS_SIZE - n) (CHR 0xFF)"
    using assms by (simp add: flash_dev_ok_def min_def)
  ultimately show ?thesis
    using assms by (simp add: flash_safe_execute_def do_flash_erase_program_def rd_bytes_def flash_dev_ok_def)
qed

lemma write_size_bounds:
  assumes "n mod 256 \<noteq> 0" "n < NVS_SIZE"
  shows "n < write_size n \<and> write_size n \<le> NVS_SIZE"
proof -
  have "n = 256 * (n div 256) + n mod 256" "n mod 256 < 256" by simp_all
  with assms show ?thesis unfolding write_size_def NVS_SIZE_def by (simp, linarith)
qed

lemma write_size_le: "n < NVS_SIZE \<Longrightarrow> write_size n \<le> NVS_SIZE"
  using write_size_bounds[of n] by (cases "n mod 256 = 0") (auto simp: write_size_def)

text \<open>The last step of \<open>write\<close>: the edited buffer goes to flash, rounded up to whole pages.\<close>

lemma write_val_finish:
  assumes dev: "flash_dev_ok dev" and fl: "length fl = NVS_SIZE" and v: "length v \<le> MAX_VAL_SIZE"
    and up: "upsert_key dev k v fl fl = Some (DT_ERR_OK, s @ NUL # r, fl)"
    and s: "is_cstring s" "length (s @ NUL # r) = NVS_SIZE"
  shows "write_val dev k v fl = Some (DT_ERR_OK,
           take (write_size (length s)) (s @ NUL # r) @
           replicate (NVS_SIZE - write_size (length s)) (CHR 0xFF))"
proof -
  have "write_size (length s) \<le> NVS_SIZE"
    using s(2) by (intro write_size_le) simp
  moreover have "rd_bytes fl 0 NVS_SIZE = Some fl" using fl by (simp add: rd_bytes_def)
  ultimately show ?thesis
    using dev v up flash_program_page[OF dev fl s(2)] c_str_terminated[OF s(1), of r]
    by (simp add: write_val_def require_bind flash_dev_okD)
qed

lemma take_past_terminator:
  "length s < n \<Longrightarrow> \<exists>r'. take n (s @ NUL # r) = s @ NUL # r'"
  by (cases "n - length s") auto

lemma store_rep_programmed:
  assumes "items_wf m" "length (render m @ NUL # r) = NVS_SIZE" "length (render m) < n" "n \<le> NVS_SIZE"
  shows "store_rep (take n (render m @ NUL # r) @ replicate (NVS_SIZE - n) (CHR 0xFF)) m"
proof -
  obtain r' where r': "take n (render m @ NUL # r) = render m @ NUL # r'"
    using take_past_terminator[OF assms(3)] by blast
  have "length (take n (render m @ NUL # r)) = n"
    using length_take[of n "render m @ NUL # r"] assms(4) unfolding assms(2) by (simp add: min_def)
  then have "length (take n (render m @ NUL # r) @ replicate (NVS_SIZE - n) (CHR 0xFF)) = NVS_SIZE"
    by (simp only: length_append length_replicate le_add_diff_inverse[OF assms(4)])
  moreover have "c_str (take n (render m @ NUL # r) @ replicate (NVS_SIZE - n) (CHR 0xFF)) = Some (render m)"
    unfolding r' using assms(1) by (simp add: c_str_terminated is_cstring_render)
  ultimately show ?thesis using assms(1) by (simp add: store_rep_def)
qed

theorem write_val_update:
  assumes rep: "store_rep fl m" and dev: "flash_dev_ok dev" and legal: "legal_put k v m"
  shows "\<exists>fl'. write_val dev k v fl = Some (DT_ERR_OK, fl') \<and> store_rep fl' (AList.update k v m)"
proof -
  let ?m = "AList.update k v m"
  have len: "length fl = NVS_SIZE" and wf: "items_wf m" using rep by (auto simp: store_rep_def)
  have kv: "valid_key k" "is_cstring v" "CHR '','' \<notin> set v" "length v \<le> MAX_VAL_SIZE"
    "suffix_free (k # map fst m)" "write_room k v m"
    using legal by (auto simp: legal_put_def)
  have wf': "items_wf ?m" by (rule items_wf_update[OF wf kv(1-5)])
  have room: "length (render ?m) < NVS_SIZE" "length (render ?m) mod 256 \<noteq> 0"
    using kv(6) by (auto simp: write_room_def Let_def)
  obtain r where up: "upsert_key dev k v fl fl = Some (DT_ERR_OK, render ?m @ NUL # r, fl)"
    and lenr: "length (render ?m @ NUL # r) = NVS_SIZE"
  proof (cases "k \<in> set (map fst m)")
    case False
    have "key_visible k m" using kv(5) by (auto simp: key_visible_def suffix_free_def)
    from upsert_new[OF rep dev kv(1) False this kv(2)] room(1) show ?thesis
      unfolding update_new[OF False] len using that[unfolded update_new[OF False]] by blast
  next
    case True
    then obtain old where "map_of m k = Some old" by (cases "map_of m k") (auto simp: map_of_eq_None_iff)
    then obtain pre post where m: "m = pre @ (k, old) # post" "k \<notin> set (map fst pre)"
      using items_wf_split[OF wf, of k old thesis] by blast
    have u: "?m = pre @ (k, v) # post" using m update_here by simp
    have "length (render m) + length (render ?m) \<le> NVS_SIZE"
      using True kv(6) by (simp add: write_room_def Let_def)
    with upsert_existing[OF rep[unfolded m(1)] dev kv(2)] room(1) that show ?thesis
      unfolding u unfolding m(1) len by blast
  qed
  let ?fl = "take (write_size (length (render ?m))) (render ?m @ NUL # r) @
             replicate (NVS_SIZE - write_size (length (render ?m))) (CHR 0xFF)"
  have ws: "length (render ?m) < write_size (length (render ?m))" "write_size (length (render ?m)) \<le> NVS_SIZE"
    using write_size_bounds[OF room(2,1)] by auto
  have "store_rep ?fl ?m" by (rule store_rep_programmed[OF wf' lenr ws])
  with write_val_finish[OF dev len kv(4) up is_cstring_render[OF wf'] lenr] show ?thesis by blast
qed

section \<open>The contract\<close>

section \<open>Concrete sectors and a concrete device\<close>

lemma length_render:
  "length (render m) = sum_list (map (\<lambda>kv. 2 + length (fst kv) + length (esc (snd kv))) m)"
  by (induction m) (simp_all add: render_simps item_text_def)

text \<open>The flash functions of the SDK as documented.\<close>

definition std_flash_dev :: flash_dev where
  "std_flash_dev = \<lparr>malloc_ok = (\<lambda>_. True), dev_erase = (\<lambda>fl n. replicate n (CHR 0xFF) @ drop n fl),
                    dev_program = (\<lambda>fl d. d @ drop (length d) fl), dev_executes = True\<rparr>"

lemma std_flash_dev_ok: "flash_dev_ok std_flash_dev"
  by (simp add: flash_dev_ok_def std_flash_dev_def)

lemma store_rep_empty: "store_rep (replicate NVS_SIZE NUL) []"
proof -
  have "replicate NVS_SIZE NUL = NUL # replicate 4095 NUL" by (simp add: NVS_SIZE_def flip: replicate_Suc)
  then have "c_str (replicate NVS_SIZE NUL) = Some []" by (simp only: c_str.simps simp_thms if_True)
  then show ?thesis by (simp add: store_rep_def items_wf_def suffix_free_def render_def)
qed

text \<open>A sector that holds a given list of items.\<close>

definition sector_of :: "items \<Rightarrow> string" where
  "sector_of m = render m @ replicate (NVS_SIZE - length (render m)) NUL"

lemma store_rep_sector: "items_wf m \<Longrightarrow> length (render m) < NVS_SIZE \<Longrightarrow> store_rep (sector_of m) m"
proof -
  assume a: "items_wf m" "length (render m) < NVS_SIZE"
  then obtain j where "NVS_SIZE - length (render m) = Suc j" by (cases "NVS_SIZE - length (render m)") auto
  then have "c_str (sector_of m) = Some (render m)"
    using a by (simp add: sector_of_def is_cstring_render c_str_terminated)
  with a show ?thesis by (simp add: store_rep_def sector_of_def)
qed

lemma write_val_new:
  assumes rep: "store_rep fl m" and dev: "flash_dev_ok dev"
    and k: "valid_key k" "k \<notin> set (map fst m)" "key_visible k m" and v: "is_cstring v" "length v \<le> MAX_VAL_SIZE"
    and room: "length (render (m @ [(k, v)])) < NVS_SIZE"
  shows "\<exists>r. length (render (m @ [(k, v)]) @ NUL # r) = NVS_SIZE \<and>
    write_val dev k v fl = Some (DT_ERR_OK,
      take (write_size (length (render (m @ [(k, v)])))) (render (m @ [(k, v)]) @ NUL # r) @
      replicate (NVS_SIZE - write_size (length (render (m @ [(k, v)])))) (CHR 0xFF))"
proof -
  have l: "length fl = NVS_SIZE" "items_wf m" using rep by (simp_all add: store_rep_def)
  have c: "is_cstring (render (m @ [(k, v)]))"
    using is_cstring_render[OF l(2)] k(1) v(1)
    by (simp add: render_simps item_text_def valid_key_cstring is_cstring_esc)
  from upsert_new[OF rep dev k v(1) room] obtain r where r:
    "upsert_key dev k v fl fl = Some (DT_ERR_OK, render (m @ [(k, v)]) @ NUL # r, fl)"
    "length (render (m @ [(k, v)]) @ NUL # r) = NVS_SIZE" using l by auto
  from write_val_finish[OF dev l(1) v(2) r(1) c r(2)] r(2) show ?thesis by blast
qed

definition fits_buffer :: "string \<Rightarrow> string \<Rightarrow> bool" where
  "fits_buffer b v \<longleftrightarrow> length (esc v) < length b"

definition holds_string :: "string \<Rightarrow> string \<Rightarrow> bool" where
  "holds_string b v \<longleftrightarrow> c_str b = Some v"

interpretation flash: kv_store store_rep flash_dev_ok read_val fits_buffer holds_string
  "\<lambda>k m. valid_key k \<and> key_visible k m" DT_ERR_OK DT_ERR_KEYNOTFOUND write_val legal_put
proof unfold_locales
  fix s m e k v b
  assume a: "store_rep s m" "flash_dev_ok e" "map_of m k = Some v" "fits_buffer b v"
  then have "is_cstring v" by (auto simp: store_rep_def items_wf_def dest!: map_of_SomeD)
  with read_val_present[OF a(1,3) flash_dev_okD(1)[OF a(2)]] a(4)
  show "\<exists>b'. read_val e k b s = Some (DT_ERR_OK, b') \<and> holds_string b' v"
    by (fastforce simp: fits_buffer_def holds_string_def c_str_terminated)
next
  fix s m e k b
  assume "store_rep s m" "flash_dev_ok e" "map_of m k = None" "valid_key k \<and> key_visible k m"
  then show "read_val e k b s = Some (DT_ERR_KEYNOTFOUND, b)"
    by (intro read_val_absent) (auto simp: flash_dev_okD)
next
  fix s m e k v
  assume "store_rep s m" "flash_dev_ok e" "legal_put k v m"
  then show "\<exists>s'. write_val e k v s = Some (DT_ERR_OK, s') \<and> store_rep s' (AList.update k v m)"
    by (rule write_val_update)
qed

end
