(* ===== verification/Credentials.thy ===== *)
theory Credentials
  imports Flash_Store
begin

text \<open>
  The two flash handlers as clients of the store contract: saving the wifi credentials and
  the provisioning token (\<open>flash_write_handler\<close>) and restoring them at the next boot
  (\<open>flash_init_handler\<close>). A store holding only these three keys, with values that fit the
  64-byte fields of the context, stays far below one flash page, so none of the size
  conditions of the store can fail.
\<close>

definition cred_keys :: "string list" where
  "cred_keys = [''ssid'', ''password'', ''contract'']"

definition cred_value :: "string \<Rightarrow> bool" where
  "cred_value v \<longleftrightarrow> is_cstring v \<and> CHR '','' \<notin> set v \<and> length (esc v) < 64"

definition cred_store :: "items \<Rightarrow> bool" where
  "cred_store m \<longleftrightarrow> items_wf m \<and> set (map fst m) \<subseteq> set cred_keys \<and> (\<forall>(k, v) \<in> set m. cred_value v)"

lemma cred_store_Nil: "cred_store []"
  by (simp add: cred_store_def items_wf_def suffix_free_def)

lemma valid_cred_key: "k \<in> set cred_keys \<Longrightarrow> valid_key k"
  by (auto simp: cred_keys_def valid_key_def special_ch_def)

lemma suffix_cred_keys: "k \<in> set cred_keys \<Longrightarrow> k' \<in> set cred_keys \<Longrightarrow> suffix k k' \<Longrightarrow> k = k'"
  by (auto simp: cred_keys_def suffix_to_prefix)

lemma cred_suffix_free: "set ks \<subseteq> set cred_keys \<Longrightarrow> suffix_free ks"
  using suffix_cred_keys unfolding suffix_free_def by blast

lemma cred_render_bound:
  assumes "cred_store m" shows "length (render m) \<le> 215"
proof -
  have d: "distinct (map fst m)" and sub: "set (map fst m) \<subseteq> set cred_keys"
    and v: "\<And>kv. kv \<in> set m \<Longrightarrow> length (esc (snd kv)) \<le> 63"
    using assms by (auto simp: cred_store_def items_wf_def cred_value_def less_Suc_eq_le)
  have "length (render m) \<le> sum_list (map (\<lambda>kv. 65 + length (fst kv)) m)"
    unfolding length_render by (rule sum_list_mono) (use v in force)
  also have "\<dots> = sum_list (map (\<lambda>k. 65 + length k) (map fst m))" by (simp add: o_def)
  also have "\<dots> = (\<Sum>k \<in> set (map fst m). 65 + length k)"
    by (rule sum_list_distinct_conv_sum_set[OF d])
  also have "\<dots> \<le> (\<Sum>k \<in> set cred_keys. 65 + length k)" by (rule sum_mono2) (use sub in auto)
  also have "\<dots> = 215" by (simp add: cred_keys_def)
  finally show ?thesis .
qed

lemma keys_update: "set (map fst (AList.update k v m)) = insert k (set (map fst m))"
  by (induction m) auto

lemma cred_store_update:
  assumes "cred_store m" "k \<in> set cred_keys" "cred_value v"
  shows "cred_store (AList.update k v m)"
proof -
  have "length v \<le> MAX_VAL_SIZE"
    using assms(3) esc_counts_length[of v] by (simp add: cred_value_def MAX_VAL_SIZE_def)
  then have "items_wf (AList.update k v m)"
    using assms by (intro items_wf_update cred_suffix_free)
      (auto simp: cred_store_def cred_value_def valid_cred_key)
  moreover have "\<forall>(k', v') \<in> set (AList.update k v m). cred_value v'"
  proof -
    have "\<forall>(k, v) \<in> set m. cred_value v" using assms(1) by (simp add: cred_store_def)
    then show ?thesis using assms(3) by (induction m) auto
  qed
  moreover have "set (map fst (AList.update k v m)) \<subseteq> set cred_keys"
    using assms(1,2) keys_update[of k v m] by (auto simp: cred_store_def)
  ultimately show ?thesis by (simp add: cred_store_def)
qed

lemma cred_legal_put:
  assumes "cred_store m" "k \<in> set cred_keys" "cred_value v"
  shows "legal_put k v m"
proof -
  let ?m = "AList.update k v m"
  have b: "length (render m) \<le> 215" "length (render ?m) \<le> 215"
    using cred_render_bound[OF assms(1)] cred_render_bound[OF cred_store_update[OF assms]] by auto
  moreover have "render ?m \<noteq> []" by (cases m) (auto simp: render_def item_text_def)
  ultimately have "write_room k v m"
    by (simp add: write_room_def Let_def NVS_SIZE_def)
  moreover have "length v \<le> MAX_VAL_SIZE"
    using assms(3) esc_counts_length[of v] by (simp add: cred_value_def MAX_VAL_SIZE_def)
  moreover have "suffix_free (k # map fst m)"
    using assms(1,2) by (intro cred_suffix_free) (auto simp: cred_store_def)
  ultimately show ?thesis
    using assms(2,3) by (simp add: legal_put_def cred_value_def valid_cred_key)
qed

text \<open>The list after a run of \<open>flash_write_handler\<close>.\<close>

definition save_creds :: "string \<Rightarrow> string \<Rightarrow> string \<Rightarrow> items \<Rightarrow> items" where
  "save_creds s p t m = AList.update ''contract'' t (AList.update ''password'' p (AList.update ''ssid'' s m))"

lemma save_creds_lookup:
  "map_of (save_creds s p t m) ''ssid'' = Some s"
  "map_of (save_creds s p t m) ''password'' = Some p"
  "map_of (save_creds s p t m) ''contract'' = Some t"
  by (simp_all add: save_creds_def update_conv)

lemma in_cred_keys: "''ssid'' \<in> set cred_keys" "''password'' \<in> set cred_keys" "''contract'' \<in> set cred_keys"
  by (simp_all add: cred_keys_def)

lemma cred_store_save:
  "cred_store m \<Longrightarrow> cred_value s \<Longrightarrow> cred_value p \<Longrightarrow> cred_value t \<Longrightarrow> cred_store (save_creds s p t m)"
  by (simp add: save_creds_def cred_store_update in_cred_keys)

text \<open>The credentials a context holds.\<close>

definition has_creds :: "app_ctx \<Rightarrow> string \<Rightarrow> string \<Rightarrow> string \<Rightarrow> bool" where
  "has_creds ctx s p t \<longleftrightarrow>
     c_str (wifi_ssid ctx) = Some s \<and> c_str (wifi_pass ctx) = Some p \<and> c_str (prv_token ctx) = Some t"

lemma flash_write_handler_saves:
  assumes rep: "store_rep fl m" and dev: "\<And>i. flash_dev_ok (dev i)" and m: "cred_store m"
    and ctx: "has_creds ctx s p t" and v: "cred_value s" "cred_value p" "cred_value t"
  shows "\<exists>fl'. flash_write_handler dev ctx fl = Some (DT_ERR_OK, ctx\<lparr>flash_written := True\<rparr>, fl') \<and>
               store_rep fl' (save_creds s p t m)"
proof -
  note m1 = cred_store_update[OF m in_cred_keys(1) v(1)]
  note m2 = cred_store_update[OF m1 in_cred_keys(2) v(2)]
  from flash.put_three[OF rep dev dev dev cred_legal_put[OF m in_cred_keys(1) v(1)]
      cred_legal_put[OF m1 in_cred_keys(2) v(2)] cred_legal_put[OF m2 in_cred_keys(3) v(3)], of 0 1 2]
  show ?thesis
    using ctx by (auto simp: flash_write_handler_def has_creds_def save_creds_def)
qed

lemma flash_init_handler_loads:
  assumes rep: "store_rep fl m" and dev: "\<And>i. flash_dev_ok (dev i)"
    and look: "map_of m ''ssid'' = Some s" "map_of m ''password'' = Some p" "map_of m ''contract'' = Some t"
    and v: "cred_value s" "cred_value p" "cred_value t" and wf: "ctx_wf ctx"
  shows "\<exists>ctx'. flash_init_handler dev ctx fl = Some (DT_ERR_OK, ctx', fl) \<and> has_creds ctx' s p t \<and>
    wifi_configd ctx' \<and> flash_initd ctx' \<and> flash_written ctx' \<and> loop_state ctx' = loop_state ctx"
proof -
  have "fits_buffer (wifi_ssid ctx) s" "fits_buffer (wifi_pass ctx) p" "fits_buffer (prv_token ctx) t"
    using v wf by (auto simp: fits_buffer_def cred_value_def ctx_wf_def)
  from flash.fetch_found[OF rep dev look(1) this(1), of 1]
    flash.fetch_found[OF rep dev look(2) this(2), of 2]
    flash.fetch_found[OF rep dev look(3) this(3), of 3]
  obtain b1 b2 b3 where
    "read_val (dev 1) ''ssid'' (wifi_ssid ctx) fl = Some (DT_ERR_OK, b1)" "c_str b1 = Some s"
    "read_val (dev 2) ''password'' (wifi_pass ctx) fl = Some (DT_ERR_OK, b2)" "c_str b2 = Some p"
    "read_val (dev 3) ''contract'' (prv_token ctx) fl = Some (DT_ERR_OK, b3)" "c_str b3 = Some t"
    by (auto simp: holds_string_def)
  then show ?thesis
    using store_rep_initialized[OF rep] by (simp add: flash_init_handler_def has_creds_def)
qed

end
