(* ===== verification/Logger.thy ===== *)
theory Logger
  imports Ctx
begin

text \<open>
  Model of \<open>src/logger/logger.c\<close>: \<open>dlog\<close> formats a message into a fresh block and hangs it
  into the first free of the 16 log slots of the context, \<open>free_logs\<close> frees the blocks of
  all slots, \<open>log_transform_ts\<close> rewrites the boot-relative time stamp of a line to wall-clock
  time. The blocks live in the explicit heap of \<open>Ctx\<close>; the context holds their addresses.
\<close>

named_theorems log_simps \<open>log lines, slots and blocks\<close>

definition MAX_LOG_LEN :: nat where "MAX_LOG_LEN = 1024"

datatype log_lvl = LOG_INFO | LOG_ERR

section \<open>Writing a log line\<close>

text \<open>\<open>calloc\<close> of the line buffer, and \<open>to_ms_since_boot(get_absolute_time())\<close>.\<close>

record log_env =
  log_calloc :: bool
  log_now_ms :: u64

definition lvlstr :: "log_lvl \<Rightarrow> string" where
  "lvlstr lvl = (if lvl = LOG_INFO then ''INFO'' else ''ERROR'')"

text \<open>The format \<open>"[%013llu] [%s]: "\<close>.\<close>

definition log_prefix :: "u64 \<Rightarrow> log_lvl \<Rightarrow> string" where
  "log_prefix ms lvl = ''['' @ pad0 13 (dec (unat ms)) @ ''] ['' @ lvlstr lvl @ '']: ''"

definition truncmark :: string where "truncmark = ''...[TCD]''"

text \<open>The line buffer after formatting; \<open>fmesg\<close> is the message with its arguments filled in.\<close>

definition log_format :: "u64 \<Rightarrow> log_lvl \<Rightarrow> string \<Rightarrow> string option" where
  "log_format ms lvl fmesg = do {
     let prefix = log_prefix ms lvl;
     let pxlen = length prefix;
     buf1 \<leftarrow> c_snprintf (replicate MAX_LOG_LEN NUL) 0 (pxlen + 1) prefix;
     let remaining = int MAX_LOG_LEN - int pxlen;
     require (remaining \<ge> 0);
     buf2 \<leftarrow> c_snprintf buf1 pxlen (MAX_LOG_LEN - pxlen) fmesg;
     if int (length fmesg) > remaining
     then blit buf2 (MAX_LOG_LEN - length truncmark - 1) (truncmark @ [NUL])
     else Some buf2
   }"

text \<open>
  The loop over the slots from index \<open>i\<close> on: the index of the first empty slot, if any, and
  the value of \<open>dump_logs\<close>.
\<close>

fun find_slot :: "nat \<Rightarrow> nat \<Rightarrow> ptr option list \<Rightarrow> bool \<Rightarrow> nat option \<times> bool" where
  "find_slot maxlogentries i [] dump = (None, dump)"
| "find_slot maxlogentries i (None # slots) dump = (Some i, dump)"
| "find_slot maxlogentries i (Some p # slots) dump =
     find_slot maxlogentries (i + 1) slots (if i \<ge> maxlogentries div 2 then True else dump)"

definition dlog ::
  "log_env \<Rightarrow> app_ctx \<Rightarrow> heap \<Rightarrow> log_lvl \<Rightarrow> string \<Rightarrow> (dt_err \<times> app_ctx \<times> heap) option" where
  "dlog env ctx h lvl fmesg =
     (if \<not> log_calloc env then Some (DT_ERR_MALLOC, ctx, h)
      else do {
        buf \<leftarrow> log_format (log_now_ms env) lvl fmesg;
        _ \<leftarrow> c_str buf;
        let (printbuf, h1) = heap_alloc buf h;
        (case find_slot (length (logdump ctx)) 0 (logdump ctx) (dump_logs ctx) of
           (Some i, dump) \<Rightarrow>
             Some (DT_ERR_OK, ctx\<lparr>logdump := (logdump ctx)[i := Some printbuf], dump_logs := dump\<rparr>, h1)
         | (None, dump) \<Rightarrow> do {
             h2 \<leftarrow> heap_free printbuf h1;
             Some (DT_ERR_2MANYLOGS, ctx\<lparr>dump_logs := dump\<rparr>, h2)
           })
      })"

section \<open>Freeing the slots\<close>

fun free_slots :: "ptr option list \<Rightarrow> heap \<Rightarrow> heap option" where
  "free_slots [] h = Some h"
| "free_slots (None # slots) h = free_slots slots h"
| "free_slots (Some p # slots) h = do { h' \<leftarrow> heap_free p h; free_slots slots h' }"

text \<open>The slots keep their (now dangling) pointers.\<close>

definition free_logs :: "app_ctx \<Rightarrow> heap \<Rightarrow> heap option" where
  "free_logs ctx h = free_slots (logdump ctx) h"

section \<open>Rewriting the time stamp\<close>

definition is_space :: "char \<Rightarrow> bool" where
  "is_space c \<longleftrightarrow> c = CHR '' '' \<or> (9 \<le> (of_char c :: nat) \<and> (of_char c :: nat) \<le> 13)"

text \<open>\<open>strtoull(s, &end, 10)\<close>: leading space, a sign, digits; saturation at the largest value.\<close>

definition strtoull :: "string \<Rightarrow> u64" where
  "strtoull s =
     (let t = dropWhile is_space s;
          neg = (t \<noteq> [] \<and> hd t = CHR ''-'');
          t' = (if t \<noteq> [] \<and> (hd t = CHR ''-'' \<or> hd t = CHR ''+'') then tl t else t);
          v = digits_val 0 (takeWhile is_digit t')
      in if v \<ge> 2 ^ 64 then - 1 else if neg then - of_nat v else of_nat v)"

text \<open>\<open>log_transform_ts\<close> on the block of a line.\<close>

definition log_transform_ts :: "string \<Rightarrow> u64 \<Rightarrow> u64 \<Rightarrow> string option" where
  "log_transform_ts msg now hwnow = do {
     s \<leftarrow> c_str msg;
     (case find_char (CHR ''['') s of
        None \<Rightarrow> Some msg
      | Some i \<Rightarrow> do {
          let ts_start = i + 1;
          let ts = strtoull (drop ts_start s);
          let delta = hwnow - ts;
          let epochts = now - delta;
          buf \<leftarrow> c_snprintf (replicate 14 NUL) 0 14 (pad0 13 (dec (unat epochts)));
          blit msg ts_start (take 13 buf)
        })
   }"

section \<open>What a formatted line is\<close>

lemma log_prefix_length: "length (log_prefix ms lvl) \<le> 33" "22 \<le> length (log_prefix ms lvl)"
proof -
  have "length (dec (unat ms)) \<le> 20" by (rule length_dec_le) (use unat_u64_lt[of ms] in auto)
  then have "length (pad0 13 (dec (unat ms))) \<le> 20" "13 \<le> length (pad0 13 (dec (unat ms)))"
    by (simp_all add: pad0_def)
  then show "length (log_prefix ms lvl) \<le> 33" "22 \<le> length (log_prefix ms lvl)"
    by (simp_all add: log_prefix_def lvlstr_def)
qed

lemma log_prefix_cstring: "is_cstring (log_prefix ms lvl)"
  using is_cstring_digits[OF pad0_dec_digits] by (simp add: log_prefix_def lvlstr_def)

text \<open>The text of a line: everything that fits, with the mark when the message was cut.\<close>

definition log_text :: "u64 \<Rightarrow> log_lvl \<Rightarrow> string \<Rightarrow> string" where
  "log_text ms lvl fmesg =
     (if length (log_prefix ms lvl) + length fmesg > MAX_LOG_LEN
      then take (MAX_LOG_LEN - 9) (log_prefix ms lvl @ fmesg) @ truncmark
      else take (MAX_LOG_LEN - 1) (log_prefix ms lvl @ fmesg))"

lemma log_format_text:
  assumes "is_cstring fmesg"
  shows "\<exists>r. log_format ms lvl fmesg = Some (log_text ms lvl fmesg @ NUL # r) \<and>
             length (log_text ms lvl fmesg @ NUL # r) = MAX_LOG_LEN"
proof -
  let ?p = "log_prefix ms lvl"
  let ?m = "take (1023 - length ?p) fmesg"
  have pl: "length ?p \<le> 33" by (rule log_prefix_length)
  have b1: "c_snprintf (replicate MAX_LOG_LEN NUL) 0 (length ?p + 1) ?p = Some (?p @ replicate (1024 - length ?p) NUL)"
    using pl by (simp add: c_snprintf_def c_strcpy_def blit_def MAX_LOG_LEN_def Suc_diff_le replicate_Suc[symmetric] del: replicate_Suc)
  have lm: "length ?p + length ?m \<le> 1023" using pl by simp
  have b2: "c_snprintf (?p @ replicate (1024 - length ?p) NUL) (length ?p) (MAX_LOG_LEN - length ?p) fmesg =
      Some (?p @ ?m @ NUL # replicate (1023 - length ?p - length ?m) NUL)"
  proof -
    have "c_strcpy (?p @ replicate (1024 - length ?p) NUL) (length ?p) ?m =
        Some (?p @ (?m @ [NUL]) @ drop (length (?m @ [NUL])) (replicate (1024 - length ?p) NUL))"
      unfolding c_strcpy_def using pl by (intro blit_append) auto
    then show ?thesis using pl by (simp add: c_snprintf_def MAX_LOG_LEN_def)
  qed
  show ?thesis
  proof (cases "length ?p + length fmesg > MAX_LOG_LEN")
    case False
    then have t: "log_text ms lvl fmesg = ?p @ ?m" using pl by (simp add: log_text_def MAX_LOG_LEN_def)
    have "log_format ms lvl fmesg = Some (?p @ ?m @ NUL # replicate (1023 - length ?p - length ?m) NUL)"
      using b1 b2 False pl by (simp add: log_format_def Let_def MAX_LOG_LEN_def)
    with t lm show ?thesis by (auto simp: MAX_LOG_LEN_def)
  next
    case True
    have m: "length ?m = 1023 - length ?p" using True pl by (simp add: MAX_LOG_LEN_def)
    let ?buf = "?p @ ?m @ NUL # replicate (1023 - length ?p - length ?m) NUL"
    have t15: "take 1015 ?buf = take 1015 (?p @ fmesg)" using pl m by (simp add: min_def)
    have l24: "length ?buf = 1024"
      unfolding length_append list.size length_replicate m using pl by simp
    have "blit ?buf 1015 (truncmark @ [NUL]) = Some (take 1015 (?p @ fmesg) @ truncmark @ [NUL])"
      using blit_at_end[of ?buf 1015 "truncmark @ [NUL]"] l24 unfolding t15 by (simp add: truncmark_def)
    then have "blit ?buf (MAX_LOG_LEN - length truncmark - 1) (truncmark @ [NUL]) =
        Some (take 1015 (?p @ fmesg) @ truncmark @ [NUL])"
      by (simp add: MAX_LOG_LEN_def truncmark_def)
    then have "log_format ms lvl fmesg = Some (take 1015 (?p @ fmesg) @ truncmark @ [NUL])"
      using b1 b2 True pl by (simp add: log_format_def Let_def MAX_LOG_LEN_def)
    moreover have "log_text ms lvl fmesg = take 1015 (?p @ fmesg) @ truncmark"
      using True by (simp add: log_text_def MAX_LOG_LEN_def)
    ultimately show ?thesis using True by (auto simp: MAX_LOG_LEN_def truncmark_def)
  qed
qed

section \<open>Slots\<close>

lemma find_slot_full [log_simps]:
  "find_slot n i (map Some ps) d = (None, d \<or> ps \<noteq> [] \<and> n div 2 < i + length ps)"
  by (induction ps arbitrary: i d) auto

lemma find_slot_free [log_simps]:
  "find_slot n i (map Some ps @ None # rest) d = (Some (i + length ps), d \<or> ps \<noteq> [] \<and> n div 2 < i + length ps)"
  by (induction ps arbitrary: i d) auto

lemma slots_split:
  "(\<exists>ps. slots = map Some ps) \<or> (\<exists>ps rest. slots = map Some ps @ None # rest)"
proof (induction slots)
  case (Cons x slots)
  show ?case
  proof (cases x)
    case None
    then have "x # slots = map Some [] @ None # slots" by simp
    then show ?thesis by (intro disjI2 exI)
  next
    case (Some p)
    from Cons.IH show ?thesis
    proof
      assume "\<exists>ps. slots = map Some ps"
      then obtain ps where "x # slots = map Some (p # ps)" using Some by auto
      then show ?thesis by (intro disjI1 exI)
    next
      assume "\<exists>ps rest. slots = map Some ps @ None # rest"
      then obtain ps rest where "x # slots = map Some (p # ps) @ None # rest" using Some by auto
      then show ?thesis by (intro disjI2 exI)
    qed
  qed
qed simp

section \<open>The invariant of the log\<close>

text \<open>
  A stored line: a terminated block of \<open>MAX_LOG_LEN\<close> bytes that starts with a bracketed time
  stamp of 13 digits.
\<close>

definition line_ok :: "string \<Rightarrow> bool" where
  "line_ok b \<longleftrightarrow> length b = MAX_LOG_LEN \<and>
     (\<exists>ms r. ms < 10 ^ 13 \<and> c_str b = Some (''['' @ pad0 13 (dec ms) @ '']'' @ r))"

text \<open>
  Every slot is NULL or points to its own live block holding a line.
\<close>

definition log_inv :: "app_ctx \<Rightarrow> heap \<Rightarrow> bool" where
  "log_inv ctx h \<longleftrightarrow>
     length (logdump ctx) = 16 \<and> heap_wf h \<and>
     distinct (filter (\<lambda>s. s \<noteq> None) (logdump ctx)) \<and>
     (\<forall>p. Some p \<in> set (logdump ctx) \<longrightarrow> (\<exists>b. blocks h p = Some b \<and> line_ok b))"

lemma log_inv_start: "log_inv zero_ctx \<lparr>blocks = Map.empty, next_ptr = 0\<rparr>"
  by (simp add: log_inv_def zero_ctx_def heap_wf_def)

lemma line_ok_format:
  assumes "is_cstring fmesg" "log_format ms lvl fmesg = Some b" "unat ms < 10 ^ 13"
  shows "line_ok b"
proof -
  obtain r where b: "b = log_text ms lvl fmesg @ NUL # r" "length b = MAX_LOG_LEN"
    using log_format_text[OF assms(1), of ms lvl] assms(2) by auto
  have cs: "is_cstring (log_text ms lvl fmesg)"
    using log_prefix_cstring[of ms lvl] assms(1)
    by (auto simp: log_text_def truncmark_def simp del: take_append intro!: is_cstring_take)
  have "\<exists>t. log_text ms lvl fmesg = log_prefix ms lvl @ t"
    using log_prefix_length(1)[of ms lvl] by (auto simp: log_text_def MAX_LOG_LEN_def)
  then obtain t where "log_text ms lvl fmesg = ''['' @ pad0 13 (dec (unat ms)) @ '']'' @ t"
    by (auto simp: log_prefix_def)
  with b cs have "c_str b = Some (''['' @ pad0 13 (dec (unat ms)) @ '']'' @ t)"
    using c_str_terminated[OF cs, of r] by simp
  with b(2) assms(3) show ?thesis unfolding line_ok_def by blast
qed

lemma distinct_slots_update:
  assumes "distinct (filter (\<lambda>s. s \<noteq> None) (map Some ps @ None # rest))" "Some p \<notin> set (map Some ps @ None # rest)"
  shows "distinct (filter (\<lambda>s. s \<noteq> None) (map Some ps @ Some p # rest))"
  using assms by auto

lemma dlog_stores:
  assumes inv: "log_inv ctx h" and env: "log_calloc env" "unat (log_now_ms env) < 10 ^ 13"
    and msg: "is_cstring fmesg" and slots: "logdump ctx = map Some ps @ None # rest"
  shows "\<exists>b. log_format (log_now_ms env) lvl fmesg = Some b \<and> line_ok b \<and>
    dlog env ctx h lvl fmesg = Some (DT_ERR_OK,
      ctx\<lparr>logdump := map Some ps @ Some (next_ptr h) # rest,
          dump_logs := dump_logs ctx \<or> 8 < length ps\<rparr>, snd (heap_alloc b h)) \<and>
    log_inv (ctx\<lparr>logdump := map Some ps @ Some (next_ptr h) # rest,
          dump_logs := dump_logs ctx \<or> 8 < length ps\<rparr>) (snd (heap_alloc b h))"
proof -
  obtain r where f: "log_format (log_now_ms env) lvl fmesg =
      Some (log_text (log_now_ms env) lvl fmesg @ NUL # r)"
    using log_format_text[OF msg] by blast
  let ?b = "log_text (log_now_ms env) lvl fmesg @ NUL # r"
  have ok: "line_ok ?b" by (rule line_ok_format[OF msg f env(2)])
  have len: "length ps + length rest = 15" using inv slots by (simp add: log_inv_def)
  have fs: "find_slot 16 0 (logdump ctx) (dump_logs ctx) = (Some (length ps), dump_logs ctx \<or> 8 < length ps)"
    unfolding slots find_slot_free by auto
  have "dlog env ctx h lvl fmesg = Some (DT_ERR_OK,
      ctx\<lparr>logdump := map Some ps @ Some (next_ptr h) # rest,
          dump_logs := dump_logs ctx \<or> 8 < length ps\<rparr>, snd (heap_alloc ?b h))"
    using env(1) f ok fs inv
    by (auto simp: dlog_def heap_alloc_def line_ok_def slots list_update_append log_inv_def)
  moreover have "Some (next_ptr h) \<notin> set (logdump ctx)"
  proof
    assume "Some (next_ptr h) \<in> set (logdump ctx)"
    then obtain b where "blocks h (next_ptr h) = Some b" using inv by (auto simp: log_inv_def)
    with inv show False by (auto simp: log_inv_def heap_wf_def)
  qed
  then have "log_inv (ctx\<lparr>logdump := map Some ps @ Some (next_ptr h) # rest,
          dump_logs := dump_logs ctx \<or> 8 < length ps\<rparr>) (snd (heap_alloc ?b h))"
    using inv ok heap_wf_alloc[of h ?b] slots distinct_slots_update[of ps rest "next_ptr h"]
    by (auto simp: log_inv_def heap_alloc_def)
  ultimately show ?thesis using f ok by blast
qed

lemma dlog_full:
  assumes inv: "log_inv ctx h" and env: "log_calloc env"
    and msg: "is_cstring fmesg" and slots: "logdump ctx = map Some ps"
  shows "\<exists>h'. dlog env ctx h lvl fmesg = Some (DT_ERR_2MANYLOGS, ctx\<lparr>dump_logs := True\<rparr>, h') \<and>
    blocks h' = blocks h \<and> log_inv (ctx\<lparr>dump_logs := True\<rparr>) h'"
proof -
  obtain r where f: "log_format (log_now_ms env) lvl fmesg =
      Some (log_text (log_now_ms env) lvl fmesg @ NUL # r)"
    using log_format_text[OF msg] by blast
  let ?b = "log_text (log_now_ms env) lvl fmesg @ NUL # r"
  have "\<exists>s. c_str ?b = Some s" by (rule NUL_in_c_str) simp
  moreover have "length ps = 16" using inv slots by (simp add: log_inv_def)
  moreover from this have "ps \<noteq> []" by auto
  ultimately have "find_slot 16 0 (logdump ctx) (dump_logs ctx) = (None, True)"
    unfolding slots find_slot_full by simp
  moreover have "blocks h (next_ptr h) = None" using inv by (auto simp: log_inv_def heap_wf_def dom_def)
  moreover from this have "(blocks h)(next_ptr h := None) = blocks h" by auto
  moreover have "heap_wf (h\<lparr>next_ptr := Suc (next_ptr h)\<rparr>)"
    using inv by (auto simp: log_inv_def heap_wf_def less_Suc_eq)
  ultimately show ?thesis
    using env f \<open>\<exists>s. c_str ?b = Some s\<close> inv slots \<open>length ps = 16\<close>
    by (auto simp: dlog_def heap_alloc_def heap_free_def log_inv_def)
qed

section \<open>Freeing once and twice\<close>

lemma free_slots_missing:
  "Some p \<in> set slots \<Longrightarrow> blocks h p = None \<Longrightarrow> free_slots slots h = None"
proof (induction slots arbitrary: h)
  case (Cons x slots)
  show ?case
  proof (cases x)
    case None
    with Cons show ?thesis by simp
  next
    case (Some q)
    show ?thesis
    proof (cases "heap_free q h")
      case None
      with Some show ?thesis by simp
    next
      case (Some h')
      then have q: "blocks h q \<noteq> None" and h': "blocks h' p = None"
        using Cons.prems(2) by (auto simp: heap_free_def split: option.splits)
      with Cons.prems \<open>x = Some q\<close> have "Some p \<in> set slots" by auto
      with Cons.IH[OF _ h'] Some \<open>x = Some q\<close> show ?thesis by simp
    qed
  qed
qed simp

lemma free_slots_frees:
  assumes "distinct (filter (\<lambda>s. s \<noteq> None) slots)" "\<forall>p. Some p \<in> set slots \<longrightarrow> blocks h p \<noteq> None"
  shows "\<exists>h'. free_slots slots h = Some h' \<and> next_ptr h' = next_ptr h \<and>
    blocks h' = (\<lambda>p. if Some p \<in> set slots then None else blocks h p)"
  using assms
proof (induction slots arbitrary: h)
  case Nil
  then show ?case by (cases h) auto
next
  case (Cons x slots)
  show ?case
  proof (cases x)
    case None
    with Cons.IH[of h] Cons.prems show ?thesis by simp
  next
    case (Some q)
    with Cons.prems obtain b where q: "blocks h q = Some b" by auto
    let ?h = "h\<lparr>blocks := (blocks h)(q := None)\<rparr>"
    have "Some q \<notin> set slots" using Cons.prems(1) Some by auto
    then have "\<forall>p. Some p \<in> set slots \<longrightarrow> blocks ?h p \<noteq> None" using Cons.prems(2) by auto
    with Cons.IH[of ?h] Cons.prems(1) Some q show ?thesis
      by (fastforce simp: heap_free_def)
  qed
qed

lemma free_logs_frees:
  "log_inv ctx h \<Longrightarrow> \<exists>h'. free_logs ctx h = Some h' \<and>
     blocks h' = (\<lambda>p. if Some p \<in> set (logdump ctx) then None else blocks h p)"
  unfolding log_inv_def free_logs_def using free_slots_frees[of "logdump ctx" h] by fastforce

lemma free_logs_twice:
  assumes "log_inv ctx h" "Some p \<in> set (logdump ctx)" "free_logs ctx h = Some h'"
  shows "free_logs ctx h' = None"
proof -
  have "blocks h' p = None" using free_logs_frees[OF assms(1)] assms(2,3) by auto
  with assms(2) show ?thesis unfolding free_logs_def by (rule free_slots_missing)
qed

section \<open>The time stamp\<close>

lemma digit_facts: "is_digit c \<Longrightarrow> \<not> is_space c \<and> c \<noteq> CHR ''-'' \<and> c \<noteq> CHR ''+'' \<and> c \<noteq> CHR ''['' \<and> c \<noteq> CHR '']''"
  by (auto simp: is_digit_def is_space_def)

lemma strtoull_digits:
  assumes "list_all is_digit ds" "ds \<noteq> []" "\<not> is_digit c"
  shows "strtoull (ds @ c # r) = (if digits_val 0 ds \<ge> 2 ^ 64 then - 1 else of_nat (digits_val 0 ds))"
proof -
  obtain d ds' where ds: "ds = d # ds'" using assms(2) by (cases ds) auto
  have "takeWhile is_digit (ds @ c # r) = ds"
    using assms by (simp add: takeWhile_append list_all_iff)
  with ds assms(1) digit_facts[of d] show ?thesis by (simp add: strtoull_def Let_def)
qed

lemma length_pad13: "n < 10 ^ 13 \<Longrightarrow> length (pad0 13 (dec n)) = 13"
  by (rule length_pad0) (rule length_dec_le, simp_all)

text \<open>The rewriting works on any line; a time beyond 13 digits is cut to its first 13.\<close>

lemma log_transform_any:
  assumes b: "c_str b = Some (''['' @ pad0 13 (dec ms) @ '']'' @ r)" and ms: "ms < 10 ^ 13"
  shows "\<exists>b'. log_transform_ts b now hwnow = Some b' \<and> length b' = length b \<and>
    c_str b' = Some (''['' @ take 13 (pad0 13 (dec (unat (now - (hwnow - of_nat ms))))) @ '']'' @ r)"
proof -
  let ?ds = "pad0 13 (dec ms)" and ?p = "pad0 13 (dec (unat (now - (hwnow - of_nat ms))))"
  let ?es = "take 13 ?p"
  have l: "length ?ds = 13" "length ?es = 13" using length_pad13[OF ms] length_pad0_ge[of 13] by auto
  obtain z where z: "b = CHR ''['' # ?ds @ CHR '']'' # r @ NUL # z" and cs: "is_cstring r"
    using c_str_SomeD[OF b] by auto
  have "strtoull (?ds @ CHR '']'' # r) = of_nat ms"
  proof -
    have "?ds \<noteq> []" using l(1) by auto
    then show ?thesis
      using strtoull_digits[OF pad0_dec_digits, of 13 ms "CHR '']''" r] ms
      by (simp add: digits_val_pad0_dec is_digit_def)
  qed
  moreover have "c_snprintf (replicate 14 NUL) 0 14 ?p = Some (?es @ [NUL])"
    using l by (simp add: c_snprintf_def c_strcpy_def blit_def)
  moreover have "blit b 1 ?es = Some (''['' @ ?es @ CHR '']'' # r @ NUL # z)"
    using blit_append[of "''[''" 1 ?es "?ds @ CHR '']'' # r @ NUL # z"] l z by simp
  ultimately have "log_transform_ts b now hwnow = Some (''['' @ ?es @ CHR '']'' # r @ NUL # z)"
    using b l by (simp add: log_transform_ts_def)
  moreover have "c_str (''['' @ ?es @ CHR '']'' # r @ NUL # z) = Some (''['' @ ?es @ '']'' @ r)"
    using c_str_terminated[of "''['' @ ?es @ '']'' @ r" z] cs is_cstring_take[OF is_cstring_digits[OF pad0_dec_digits]] by simp
  ultimately show ?thesis using l z by auto
qed

lemma log_transform_line:
  assumes "c_str b = Some (''['' @ pad0 13 (dec ms) @ '']'' @ r)" "ms < 10 ^ 13"
    and "e = now - (hwnow - of_nat ms)" "unat e < 10 ^ 13"
  shows "\<exists>b'. log_transform_ts b now hwnow = Some b' \<and> length b' = length b \<and>
    c_str b' = Some (''['' @ pad0 13 (dec (unat e)) @ '']'' @ r)"
  using log_transform_any[OF assms(1,2), of now hwnow] length_pad13[OF assms(4)] assms(3) by simp

section \<open>Properties\<close>

text \<open>Decimal numerals, for concrete lines.\<close>

lemma digit_chars:
  "digit 0 = CHR ''0''" "digit (Suc 0) = CHR ''1''" "digit 2 = CHR ''2''" "digit 3 = CHR ''3''" "digit 4 = CHR ''4''"
  "digit 5 = CHR ''5''" "digit 6 = CHR ''6''" "digit 7 = CHR ''7''" "digit 8 = CHR ''8''" "digit 9 = CHR ''9''"
  by code_simp+

lemmas dec_numeral = dec.simps digit_chars pad0_def replicate_numeral

text \<open>An environment in which the allocation succeeds, and an empty heap.\<close>

definition log_env_at :: "u64 \<Rightarrow> log_env" where
  "log_env_at ms = \<lparr>log_calloc = True, log_now_ms = ms\<rparr>"

definition empty_heap :: heap where
  "empty_heap = \<lparr>blocks = Map.empty, next_ptr = 0\<rparr>"

lemma is_cstring_log_text: "is_cstring fmesg \<Longrightarrow> is_cstring (log_text ms lvl fmesg)"
  using log_prefix_cstring[of ms lvl] is_cstring_take[of "log_prefix ms lvl @ fmesg"]
  by (simp add: log_text_def truncmark_def min.commute del: take_append)

lemma length_log_text:
  "length (log_text ms lvl fmesg) = min 1023 (length (log_prefix ms lvl) + length fmesg)"
  by (simp add: log_text_def MAX_LOG_LEN_def truncmark_def min.commute del: take_append)

lemma log_format_cstr:
  assumes "is_cstring fmesg" "log_format ms lvl fmesg = Some b"
  shows "c_str b = Some (log_text ms lvl fmesg)" and "length b = MAX_LOG_LEN"
  using log_format_text[OF assms(1), of ms lvl] assms(2) is_cstring_log_text[OF assms(1)]
  by (auto simp: c_str_terminated simp del: length_append)

text \<open>
  C25 (dlog_appends). A log call stores its line, as a terminated block of its own, in the first empty slot,
  keeps the invariant of the log, and asks for a dump once slot 8 was already in use.
\<close>

theorem dlog_appends:
  assumes "log_inv ctx h" "log_calloc env" "unat (log_now_ms env) < 10 ^ 13" "is_cstring fmesg"
    and "logdump ctx = map Some ps @ None # rest"
  shows "\<exists>ctx' h' p b. dlog env ctx h lvl fmesg = Some (DT_ERR_OK, ctx', h') \<and>
    logdump ctx' = map Some ps @ Some p # rest \<and> blocks h' = (blocks h)(p \<mapsto> b) \<and> blocks h p = None \<and>
    c_str b = Some (log_text (log_now_ms env) lvl fmesg) \<and>
    dump_logs ctx' = (dump_logs ctx \<or> 8 < length ps) \<and> log_inv ctx' h'"
proof -
  from dlog_stores[OF assms, where lvl = lvl] obtain b where
    b: "log_format (log_now_ms env) lvl fmesg = Some b"
    and d: "dlog env ctx h lvl fmesg = Some (DT_ERR_OK,
      ctx\<lparr>logdump := map Some ps @ Some (next_ptr h) # rest, dump_logs := dump_logs ctx \<or> 8 < length ps\<rparr>,
      snd (heap_alloc b h))"
    and i: "log_inv (ctx\<lparr>logdump := map Some ps @ Some (next_ptr h) # rest,
      dump_logs := dump_logs ctx \<or> 8 < length ps\<rparr>) (snd (heap_alloc b h))" by blast
  have "c_str b = Some (log_text (log_now_ms env) lvl fmesg)"
    using log_format_cstr(1)[OF assms(4) b] .
  moreover have "blocks h (next_ptr h) = None" using assms(1) by (fastforce simp: log_inv_def heap_wf_def)
  ultimately show ?thesis using d i
    by (intro exI[of _ "ctx\<lparr>logdump := map Some ps @ Some (next_ptr h) # rest, dump_logs := dump_logs ctx \<or> 8 < length ps\<rparr>"]
        exI[of _ "snd (heap_alloc b h)"] exI[of _ "next_ptr h"] exI[of _ b]) (simp add: heap_alloc_def)
qed

theorem dlog_appends_witness:
  "\<exists>ctx' h' p b. dlog (log_env_at 4711) zero_ctx empty_heap LOG_INFO ''up'' = Some (DT_ERR_OK, ctx', h') \<and>
    logdump ctx' = Some p # replicate 15 None \<and> blocks h' = [p \<mapsto> b] \<and>
    c_str b = Some ''[0000000004711] [INFO]: up'' \<and> \<not> dump_logs ctx'"
proof -
  have s: "log_text 4711 LOG_INFO ''up'' = ''[0000000004711] [INFO]: up''"
    by (simp add: log_text_def log_prefix_def lvlstr_def dec_numeral MAX_LOG_LEN_def)
  have inv: "log_inv zero_ctx empty_heap" using log_inv_start by (simp add: empty_heap_def)
  have slots: "logdump zero_ctx = map Some [] @ None # replicate 15 None" "dump_logs zero_ctx = False"
    by (simp_all add: zero_ctx_def replicate_numeral)
  have "is_cstring ''up''" "log_calloc (log_env_at 4711)" "unat (log_now_ms (log_env_at 4711)) < 10 ^ 13"
    by (simp_all add: log_env_at_def)
  from dlog_appends[OF inv this(2,3,1) slots(1), of LOG_INFO] obtain ctx' h' p b where
    "dlog (log_env_at 4711) zero_ctx empty_heap LOG_INFO ''up'' = Some (DT_ERR_OK, ctx', h')"
    "logdump ctx' = map Some [] @ Some p # replicate 15 None" "blocks h' = (blocks empty_heap)(p \<mapsto> b)"
    "c_str b = Some (log_text (log_now_ms (log_env_at 4711)) LOG_INFO ''up'')"
    "dump_logs ctx' = (dump_logs zero_ctx \<or> 8 < length ([] :: ptr list))" by blast
  with s slots(2) show ?thesis
    by (intro exI[of _ ctx'] exI[of _ h'] exI[of _ p] exI[of _ b]) (simp add: log_env_at_def empty_heap_def)
qed

text \<open>
  With all 16 slots in use a log call drops its line, reports \<open>DT_ERR_2MANYLOGS\<close>, leaves
  slots and blocks as they were and asks for a dump.
\<close>

theorem log_full_drops:
  assumes "log_inv ctx h" "log_calloc env" "is_cstring fmesg" "None \<notin> set (logdump ctx)"
  shows "\<exists>h'. dlog env ctx h lvl fmesg = Some (DT_ERR_2MANYLOGS, ctx\<lparr>dump_logs := True\<rparr>, h') \<and>
    blocks h' = blocks h \<and> log_inv (ctx\<lparr>dump_logs := True\<rparr>) h'"
proof -
  from slots_split[of "logdump ctx"] assms(4) obtain ps where "logdump ctx = map Some ps" by auto
  from dlog_full[OF assms(1-3) this] show ?thesis .
qed

text \<open>A log with every slot in use.\<close>

definition full_block :: string where
  "full_block = ''[0000000000001] x'' @ replicate 1007 NUL"

definition full_log_ctx :: app_ctx where
  "full_log_ctx = zero_ctx\<lparr>logdump := map Some [0..<16]\<rparr>"

definition full_log_heap :: heap where
  "full_log_heap = \<lparr>blocks = (\<lambda>p. if p < 16 then Some full_block else None), next_ptr = 16\<rparr>"

lemma full_block_text:
  "c_str full_block = Some (''['' @ pad0 13 (dec 1) @ '']'' @ '' x'')" "length full_block = MAX_LOG_LEN"
proof -
  have "replicate 1007 NUL = NUL # replicate 1006 NUL" by (simp add: replicate_numeral)
  then show "c_str full_block = Some (''['' @ pad0 13 (dec 1) @ '']'' @ '' x'')"
    using c_str_terminated[of "''[0000000000001] x''" "replicate 1006 NUL"]
    by (simp add: full_block_def dec_numeral)
qed (simp add: full_block_def MAX_LOG_LEN_def)

lemma full_block_ok: "line_ok full_block"
  unfolding line_ok_def using full_block_text by (intro conjI exI[of _ 1] exI[of _ "'' x''"]) auto

lemma full_log_inv: "log_inv full_log_ctx full_log_heap"
proof -
  have "filter (\<lambda>s. s \<noteq> None) (map Some [0..<16]) = map Some [0..<16]" by (simp add: filter_id_conv)
  moreover have "distinct (map Some [0..<16])" by (simp add: distinct_map)
  ultimately show ?thesis
    by (auto simp: log_inv_def full_log_ctx_def full_log_heap_def heap_wf_def full_block_ok split: if_splits)
qed

theorem log_full_drops_witness:
  "\<exists>h'. dlog (log_env_at 5) full_log_ctx full_log_heap LOG_ERR ''lost'' =
     Some (DT_ERR_2MANYLOGS, full_log_ctx\<lparr>dump_logs := True\<rparr>, h') \<and> blocks h' = blocks full_log_heap"
  using log_full_drops[OF full_log_inv, of "log_env_at 5" "''lost''" LOG_ERR]
  by (auto simp: log_env_at_def full_log_ctx_def)

text \<open>
  C26 (log_line_bounded). A formatted line never leaves its block of 1024 bytes. It is the prefix and the message,
  whole while they have fewer than 1024 characters. From 1025 on the line ends in the
  truncation mark; at exactly 1024 the last character is lost without a mark.
\<close>

theorem log_line_bounded:
  assumes "is_cstring fmesg"
  shows "\<exists>b s. log_format ms lvl fmesg = Some b \<and> length b = 1024 \<and> c_str b = Some s \<and>
    (let full = log_prefix ms lvl @ fmesg
     in length full < 1024 \<and> s = full \<or>
        length full = 1024 \<and> s = butlast full \<or>
        1024 < length full \<and> s = take 1015 full @ ''...[TCD]'')"
proof -
  obtain b where b: "log_format ms lvl fmesg = Some b" using log_format_text[OF assms] by blast
  define full where "full = log_prefix ms lvl @ fmesg"
  have "log_text ms lvl fmesg = (if 1024 < length full then take 1015 full @ ''...[TCD]'' else take 1023 full)"
    by (simp add: full_def log_text_def MAX_LOG_LEN_def truncmark_def)
  moreover have "take 1023 full = full" if "length full < 1024" using that by simp
  moreover have "take 1023 full = butlast full" if "length full = 1024" using that by (simp add: butlast_conv_take)
  ultimately have "length full < 1024 \<and> log_text ms lvl fmesg = full \<or>
      length full = 1024 \<and> log_text ms lvl fmesg = butlast full \<or>
      1024 < length full \<and> log_text ms lvl fmesg = take 1015 full @ ''...[TCD]''"
    by (cases "length full" "1024 :: nat" rule: linorder_cases) auto
  then show ?thesis
    using b log_format_cstr[OF assms b] unfolding full_def Let_def MAX_LOG_LEN_def by blast
qed

theorem log_line_bounded_witness:
  "\<exists>b s. log_format 7 LOG_ERR (replicate 2000 (CHR ''x'')) = Some b \<and> length b = 1024 \<and> c_str b = Some s \<and>
     s = take 1015 (log_prefix 7 LOG_ERR @ replicate 2000 (CHR ''x'')) @ ''...[TCD]''"
  using log_line_bounded[of "replicate 2000 (CHR ''x'')" 7 LOG_ERR] by (simp add: is_cstring_def Let_def)

text \<open>
  C27 (timestamp_rewritten). Rewriting the time stamp of a stored line to wall-clock time replaces its 13 digits by
  those of \<open>now - (hwnow - ts)\<close>, keeps the rest, and the line stays well formed.
\<close>

theorem timestamp_rewritten:
  assumes "c_str b = Some (''['' @ pad0 13 (dec ms) @ '']'' @ r)" "ms < 10 ^ 13" "length b = MAX_LOG_LEN"
    and "unat (now - (hwnow - of_nat ms)) < 10 ^ 13"
  shows "\<exists>b'. log_transform_ts b now hwnow = Some b' \<and> line_ok b' \<and>
    c_str b' = Some (''['' @ pad0 13 (dec (unat (now - (hwnow - of_nat ms)))) @ '']'' @ r)"
  using log_transform_line[OF assms(1,2) refl assms(4)] assms(3,4) unfolding line_ok_def by auto

theorem timestamp_rewritten_witness:
  "\<exists>b'. log_transform_ts full_block 1700000000500 501 = Some b' \<and> line_ok b' \<and>
     c_str b' = Some ''[1700000000000] x''"
proof -
  have "dec 1700000000000 = ''1700000000000''" by (simp add: dec_numeral)
  with timestamp_rewritten[OF full_block_text(1) _ full_block_text(2), of 1700000000500 501] show ?thesis
    by (simp add: pad0_def)
qed

text \<open>
  Freeing the slots releases every block they hold; because the slots keep their pointers, a
  second call with a line in the log frees a dangling pointer.
\<close>

theorem log_free_twice:
  assumes "log_inv ctx h"
  shows "\<exists>h'. free_logs ctx h = Some h' \<and> (\<forall>p. Some p \<in> set (logdump ctx) \<longrightarrow> blocks h' p = None) \<and>
    (free_logs ctx h' = None \<longleftrightarrow> (\<exists>p. Some p \<in> set (logdump ctx)))"
proof -
  obtain h' where h': "free_logs ctx h = Some h'"
    "blocks h' = (\<lambda>p. if Some p \<in> set (logdump ctx) then None else blocks h p)"
    using free_logs_frees[OF assms] by blast
  have "free_logs ctx h' \<noteq> None" if "\<nexists>p. Some p \<in> set (logdump ctx)"
  proof -
    have "\<forall>s \<in> set (logdump ctx). s = None" using that by (metis not_None_eq)
    then have "free_slots xs h' = Some h'" if "set xs \<subseteq> set (logdump ctx)" for xs
      using that by (induction xs) auto
    then show ?thesis by (simp add: free_logs_def)
  qed
  then have "free_logs ctx h' = None \<longleftrightarrow> (\<exists>p. Some p \<in> set (logdump ctx))"
    using free_logs_twice[OF assms _ h'(1)] by blast
  with h' show ?thesis by simp
qed

theorem log_free_twice_witness:
  "\<exists>h'. free_logs full_log_ctx full_log_heap = Some h' \<and> blocks h' 3 = None \<and> free_logs full_log_ctx h' = None"
  using log_free_twice[OF full_log_inv] by (fastforce simp: full_log_ctx_def)

end
