(* ===== verification/Lwip.thy ===== *)
theory Lwip
  imports Prelude
begin

text \<open>
  What the networking components use of lwIP, which is not part of the repository: its
  error type, and its packet-buffer accessors as parameters with their documented
  behaviour as a named hypothesis. A packet buffer is the list of its \<open>tot_len\<close> bytes.
\<close>

datatype lwip_err = ERR_OK | ERR_MEM | ERR_INPROGRESS | ERR_VAL | ERR_ABRT | ERR_other int

text \<open>
  \<open>pbuf_get_at p i\<close> is the byte at an offset; \<open>pbuf_copy p len offset\<close> are the bytes that
  \<open>pbuf_copy_partial\<close> writes to its destination (their number is its return value).
\<close>

record pbuf_ops =
  pbuf_get_at :: "u8 list \<Rightarrow> nat \<Rightarrow> u8"
  pbuf_copy :: "u8 list \<Rightarrow> nat \<Rightarrow> nat \<Rightarrow> u8 list"

definition pbuf_ops_ok :: "pbuf_ops \<Rightarrow> bool" where
  "pbuf_ops_ok ops \<longleftrightarrow>
     (\<forall>p i. pbuf_get_at ops p i = (if i < length p then p ! i else 0)) \<and>
     (\<forall>p n off. pbuf_copy ops p n off = take n (drop off p))"

lemma pbuf_ops_okD:
  "pbuf_ops_ok ops \<Longrightarrow> pbuf_get_at ops p i = (if i < length p then p ! i else 0)"
  "pbuf_ops_ok ops \<Longrightarrow> pbuf_copy ops p n off = take n (drop off p)"
  by (simp_all add: pbuf_ops_ok_def)

definition std_pbuf :: pbuf_ops where
  "std_pbuf = \<lparr>pbuf_get_at = (\<lambda>p i. if i < length p then p ! i else 0),
               pbuf_copy = (\<lambda>p n off. take n (drop off p))\<rparr>"

lemma std_pbuf_ok: "pbuf_ops_ok std_pbuf"
  by (simp add: pbuf_ops_ok_def std_pbuf_def)

end
