(* ===== verification/Util.thy ===== *)
theory Util
  imports Logger Lwip Contracts
begin

text \<open>
  Model of \<open>src/util/util.c\<close>: the NTP client and the wall clock derived from it. The client
  is driven by events (a poll from the main loop, a DNS answer, a datagram, an alarm); each
  is a function on the client's structure \<open>NTP_T\<close> that also lists the calls it makes to the
  network stack and the alarm pool, in order.
\<close>

definition NTP_MSG_LEN :: nat where "NTP_MSG_LEN = 48"
definition NTP_PORT :: nat where "NTP_PORT = 123"
definition NTP_DELTA :: u64 where "NTP_DELTA = 2208988800"
definition NTP_POLL_MS :: nat where "NTP_POLL_MS = 30 * 1000"
definition NTP_RESEND_MS :: nat where "NTP_RESEND_MS = 10 * 1000"

datatype ntp_call =
    Udp_sendto u32 nat "u8 list"  \<comment> \<open>address, port, payload\<close>
  | Cancel_alarm int
  | Add_alarm_ms nat
  | Dns_lookup string
  | Udp_remove

text \<open>
  What the SDK answers during one call: the clocks (microseconds since boot when the client
  is created and later, milliseconds since boot), \<open>make_timeout_time_ms(NTP_POLL_MS)\<close>, the
  difference of two times in microseconds, the alarm id, the result of the DNS lookup with
  the address it stores, and the success of the allocations.
\<close>

record ntp_env =
  init_us :: u64
  now_us :: u64
  now_ms :: u64
  poll_timeout :: u64
  diff_us :: "u64 \<Rightarrow> u64 \<Rightarrow> int"
  alarm_id :: int
  dns_err :: lwip_err
  dns_addr :: "u32 option"
  pbuf_alloc_ok :: bool
  udp_new_ok :: bool
  calloc_ok :: bool

text \<open>The documented meaning of \<open>absolute_time_diff_us(from, to)\<close> for times below 2 to the 63.\<close>

definition time_env_ok :: "ntp_env \<Rightarrow> bool" where
  "time_env_ok env \<longleftrightarrow> (\<forall>a b. diff_us env a b = uint b - uint a)"

section \<open>The client\<close>

definition ntp_request :: "ntp_env \<Rightarrow> ntp_t \<Rightarrow> ntp_call list" where
  "ntp_request env st =
     (if \<not> pbuf_alloc_ok env then []
      else [Udp_sendto (ntp_server_address st) NTP_PORT ((replicate NTP_MSG_LEN 0)[0 := 0x1b])])"

definition ntp_sync_done :: "ntp_env \<Rightarrow> ntp_t \<Rightarrow> bool \<Rightarrow> ntp_t \<times> ntp_call list" where
  "ntp_sync_done env st success =
     (let (st1, calls) =
        (if ntp_resend_alarm st > 0
         then (st\<lparr>ntp_resend_alarm := 0\<rparr>, [Cancel_alarm (ntp_resend_alarm st)]) else (st, []))
      in (st1\<lparr>dns_request_sent := False, ntp_next_poll := poll_timeout env\<rparr>, calls))"

definition ntp_failed_handler :: "ntp_env \<Rightarrow> ntp_t \<Rightarrow> ntp_t \<times> ntp_call list" where
  "ntp_failed_handler env st = ntp_sync_done env st False"

definition ntp_dns_found :: "ntp_env \<Rightarrow> ntp_t \<Rightarrow> u32 option \<Rightarrow> ntp_t \<times> ntp_call list" where
  "ntp_dns_found env st ipaddr =
     (case ipaddr of
        Some a \<Rightarrow> (let st1 = st\<lparr>ntp_server_address := a\<rparr> in (st1, ntp_request env st1))
      | None \<Rightarrow> ntp_sync_done env st False)"

text \<open>The big-endian seconds field at offset 40, and its conversion to the 1970 epoch.\<close>

definition be32 :: "u8 list \<Rightarrow> u32" where
  "be32 b = (push_bit 24 (ucast (b ! 0)) OR push_bit 16 (ucast (b ! 1)) OR
             push_bit 8 (ucast (b ! 2)) OR ucast (b ! 3))"

definition secs_1970 :: "u32 \<Rightarrow> u32" where
  "secs_1970 seconds_since_1900 = ucast (ucast seconds_since_1900 - NTP_DELTA)"

text \<open>The four-byte buffer starts zeroed and takes what \<open>pbuf_copy_partial\<close> delivers.\<close>

definition ntp_recv ::
  "ntp_env \<Rightarrow> pbuf_ops \<Rightarrow> ntp_t \<Rightarrow> u8 list \<Rightarrow> u32 \<Rightarrow> nat \<Rightarrow> (ntp_t \<times> ntp_call list) option" where
  "ntp_recv env ops st p addr port =
     (let mode = pbuf_get_at ops p 0 AND 0x7;
          stratum = pbuf_get_at ops p 1
      in if addr = ntp_server_address st \<and> port = NTP_PORT \<and> length p = NTP_MSG_LEN \<and>
            mode = 0x4 \<and> stratum \<noteq> 0
         then do {
           seconds_buf \<leftarrow> blit (replicate 4 0) 0 (pbuf_copy ops p 4 40);
           let secs = secs_1970 (be32 seconds_buf);
           Some (ntp_sync_done env
                   (st\<lparr>epoch_secs := ucast secs, hw_ref_ms := now_ms env, synced := True\<rparr>) True)
         }
         else Some (ntp_sync_done env st False))"

definition ntp_init :: "ntp_env \<Rightarrow> ntp_t option" where
  "ntp_init env =
     (if \<not> calloc_ok env then None
      else if \<not> udp_new_ok env then None
      else Some \<lparr>ntp_server_address = 0, dns_request_sent = False, ntp_pcb = True,
                 ntp_next_poll = init_us env, ntp_resend_alarm = 0, epoch_secs = 0,
                 hw_ref_ms = 0, synced = False\<rparr>)"

definition ntp_deinit :: "ntp_t option \<Rightarrow> ntp_call list" where
  "ntp_deinit st =
     (case st of None \<Rightarrow> []
      | Some s \<Rightarrow> (if ntp_resend_alarm s > 0 then [Cancel_alarm (ntp_resend_alarm s)] else []) @
                  (if ntp_pcb s then [Udp_remove] else []))"

definition ntp_poll :: "ntp_env \<Rightarrow> ntp_t \<Rightarrow> ntp_t \<times> ntp_call list" where
  "ntp_poll env st =
     (if diff_us env (now_us env) (ntp_next_poll st) < 0 \<and> \<not> dns_request_sent st
      then (let st1 = st\<lparr>ntp_resend_alarm := alarm_id env\<rparr>;
                st2 = (case dns_addr env of Some a \<Rightarrow> st1\<lparr>ntp_server_address := a\<rparr> | None \<Rightarrow> st1);
                st3 = st2\<lparr>dns_request_sent := True\<rparr>;
                calls = [Add_alarm_ms NTP_RESEND_MS, Dns_lookup ''pool.ntp.org'']
            in if dns_err env = ERR_OK then (st3, calls @ ntp_request env st3)
               else if dns_err env \<noteq> ERR_INPROGRESS
               then (let (st4, c) = ntp_sync_done env st3 False in (st4, calls @ c))
               else (st3, calls))
      else (st, []))"

section \<open>The wall clock\<close>

text \<open>\<open>now\<close> is \<open>to_ms_since_boot(get_absolute_time())\<close> widened to 64 bits.\<close>

definition get_current_epoch :: "app_ctx \<Rightarrow> u64 \<Rightarrow> dt_err \<times> u64 option" where
  "get_current_epoch ctx now =
     (case ntp_state ctx of
        None \<Rightarrow> (DT_ERR_OFFLINE, None)
      | Some ntp \<Rightarrow>
          (if \<not> synced ntp then (DT_ERR_OFFLINE, None)
           else (let delta_ms = now - hw_ref_ms ntp
                 in (DT_ERR_OK, Some (epoch_secs ntp * 1000 + delta_ms)))))"

section \<open>The handler of NTP_SYNC\<close>

definition ntp_sync_handler ::
  "ntp_env \<Rightarrow> log_env \<Rightarrow> app_ctx \<Rightarrow> heap \<Rightarrow> (dt_err \<times> app_ctx \<times> heap \<times> ntp_call list) option" where
  "ntp_sync_handler env lenv ctx h =
     (let ctx1 = (if ntp_state ctx = None then ctx\<lparr>ntp_state := ntp_init env\<rparr> else ctx)
      in case ntp_state ctx1 of
           None \<Rightarrow> do {
             (_, ctx2, h') \<leftarrow> dlog lenv ctx1 h LOG_ERR (''ntp_init failed'' @ [CHR 0x0A]);
             Some (DT_ERR_MALLOC, ctx2, h', [])
           }
         | Some ntp \<Rightarrow>
             (let (ntp1, calls) = ntp_poll env ntp;
                  ctx2 = ctx1\<lparr>ntp_state := Some ntp1\<rparr>
              in Some (DT_ERR_OK, if synced ntp1 then ctx2\<lparr>ntp_syncd := True\<rparr> else ctx2, h, calls)))"

section \<open>Events and the invariant of the client\<close>

datatype ntp_event =
    Poll ntp_env
  | Dns_answer ntp_env "u32 option"
  | Datagram ntp_env pbuf_ops "u8 list" u32 nat
  | Alarm_fires ntp_env

fun ntp_step :: "ntp_t \<Rightarrow> ntp_event \<Rightarrow> (ntp_t \<times> ntp_call list) option" where
  "ntp_step st (Poll env) = Some (ntp_poll env st)"
| "ntp_step st (Dns_answer env a) = Some (ntp_dns_found env st a)"
| "ntp_step st (Datagram env ops p addr port) = ntp_recv env ops st p addr port"
| "ntp_step st (Alarm_fires env) = Some (ntp_failed_handler env st)"

fun ntp_run :: "ntp_t \<Rightarrow> ntp_event list \<Rightarrow> ntp_t option" where
  "ntp_run st [] = Some st"
| "ntp_run st (ev # evs) = do { (st', _) \<leftarrow> ntp_step st ev; ntp_run st' evs }"

text \<open>An alarm is pending only while a request is: a new poll never overwrites a live alarm id.\<close>

definition ntp_inv :: "ntp_t \<Rightarrow> bool" where
  "ntp_inv st \<longleftrightarrow> (ntp_resend_alarm st > 0 \<longrightarrow> dns_request_sent st)"

lemma ntp_sync_done_inv: "ntp_inv (fst (ntp_sync_done env st b))"
  by (auto simp: ntp_sync_done_def ntp_inv_def Let_def)

lemma ntp_sync_done_invD:
  "ntp_sync_done env st b = (st', c) \<Longrightarrow> ntp_resend_alarm st' > 0 \<Longrightarrow> dns_request_sent st'"
  using ntp_sync_done_inv[of env st b] by (simp add: ntp_inv_def)

lemma ntp_sync_done_fields:
  "epoch_secs (fst (ntp_sync_done env st b)) = epoch_secs st"
  "hw_ref_ms (fst (ntp_sync_done env st b)) = hw_ref_ms st"
  "synced (fst (ntp_sync_done env st b)) = synced st"
  "dns_request_sent (fst (ntp_sync_done env st b)) = False"
  "ntp_next_poll (fst (ntp_sync_done env st b)) = poll_timeout env"
  "ntp_resend_alarm (fst (ntp_sync_done env st b)) \<le> 0"
  by (simp_all add: ntp_sync_done_def Let_def)

lemma ntp_poll_inv: "ntp_inv st \<Longrightarrow> ntp_inv (fst (ntp_poll env st))"
  by (auto simp: ntp_poll_def Let_def ntp_inv_def split: prod.splits option.splits dest: ntp_sync_done_invD)

lemma ntp_step_inv: "ntp_inv st \<Longrightarrow> ntp_step st ev = Some (st', calls) \<Longrightarrow> ntp_inv st'"
proof (cases ev)
  case (Poll env)
  assume "ntp_inv st" "ntp_step st ev = Some (st', calls)"
  with Poll ntp_poll_inv[of st env] show ?thesis by simp
next
  case (Dns_answer env a)
  assume "ntp_inv st" "ntp_step st ev = Some (st', calls)"
  with Dns_answer ntp_sync_done_inv[of env st False] show ?thesis
    by (auto simp: ntp_dns_found_def ntp_inv_def Let_def split: option.splits)
next
  case (Datagram env ops p addr port)
  assume "ntp_inv st" "ntp_step st ev = Some (st', calls)"
  with Datagram show ?thesis
    by (auto simp: ntp_recv_def Let_def bind_eq_Some_conv split: if_splits)
      (metis fst_conv ntp_sync_done_inv)+
next
  case (Alarm_fires env)
  assume "ntp_inv st" "ntp_step st ev = Some (st', calls)"
  with Alarm_fires ntp_sync_done_inv[of env st False] show ?thesis
    by (simp add: ntp_failed_handler_def)
qed

lemma ntp_run_inv: "ntp_inv st \<Longrightarrow> ntp_run st evs = Some st' \<Longrightarrow> ntp_inv st'"
proof (induction evs arbitrary: st)
  case (Cons ev evs)
  then show ?case by (auto simp: bind_eq_Some_conv dest: ntp_step_inv)
qed simp

section \<open>The client as an event system\<close>

definition ntp_started :: "ntp_t \<Rightarrow> bool" where
  "ntp_started st \<longleftrightarrow> (\<exists>env. ntp_init env = Some st)"

definition ntp_trans :: "ntp_t \<Rightarrow> ntp_event \<Rightarrow> ntp_t \<Rightarrow> bool" where
  "ntp_trans st ev st' \<longleftrightarrow> (\<exists>calls. ntp_step st ev = Some (st', calls))"

lemma ntp_init_inv: "ntp_init env = Some st \<Longrightarrow> ntp_inv st"
  by (auto simp: ntp_init_def ntp_inv_def split: if_splits)

interpretation ntp: event_system ntp_started ntp_trans ntp_inv
  by unfold_locales (auto simp: ntp_started_def ntp_trans_def intro: ntp_init_inv ntp_step_inv)

section \<open>Times on the wire\<close>

text \<open>A datagram the client accepts: from the server's address and port, 48 bytes, mode 4, a known stratum.\<close>

definition ntp_valid :: "ntp_t \<Rightarrow> u8 list \<Rightarrow> u32 \<Rightarrow> nat \<Rightarrow> bool" where
  "ntp_valid st p addr port \<longleftrightarrow> addr = ntp_server_address st \<and> port = NTP_PORT \<and> length p = NTP_MSG_LEN \<and>
     p ! 0 AND 7 = 4 \<and> p ! 1 \<noteq> 0"

text \<open>The seconds field a server sends for a time in seconds since 1970, and its four bytes.\<close>

definition ntp_seconds :: "nat \<Rightarrow> u32" where
  "ntp_seconds t = of_nat (t + 2208988800)"

definition be32_of :: "u32 \<Rightarrow> u8 list" where
  "be32_of w = [ucast (drop_bit 24 w), ucast (drop_bit 16 w), ucast (drop_bit 8 w), ucast w]"

lemma be32_be32_of: "be32 (be32_of w) = w"
proof (rule bit_word_eqI)
  fix n assume "n < LENGTH(32)"
  then consider "n < 8" | k where "n = 8 + k" "k < 8" | k where "n = 16 + k" "k < 8" | k where "n = 24 + k" "k < 8"
    using le_Suc_ex[of 8 n] le_Suc_ex[of 16 n] le_Suc_ex[of 24 n] by fastforce
  then show "bit (be32 (be32_of w)) n = bit w n"
    by cases (auto simp: be32_def be32_of_def bit_simps)
qed

lemma take_bit_diff_down: "take_bit 32 (a - b) = take_bit 32 (take_bit 64 a - take_bit 64 b)" for a b :: int
proof -
  have "take_bit 32 (take_bit 64 a - take_bit 64 b) = take_bit 32 (take_bit 32 (take_bit 64 a) - take_bit 32 (take_bit 64 b))"
    by (simp only: take_bit_diff)
  also have "\<dots> = take_bit 32 (a - b)" by (simp add: take_bit_diff)
  finally show ?thesis by simp
qed

lemma ucast_minus_down: "(ucast (a - b :: u64) :: u32) = ucast a - ucast b"
  by transfer (simp add: take_bit_diff_down[symmetric])

lemma secs_1970_ntp_seconds:
  assumes "t < 2 ^ 32" shows "(ucast (secs_1970 (ntp_seconds t)) :: u64) = of_nat t"
proof -
  have "(ucast (ucast w :: u64) :: u32) = w" for w :: u32 by transfer simp
  then have "secs_1970 (ntp_seconds t) = ntp_seconds t - 2208988800"
    unfolding secs_1970_def NTP_DELTA_def ucast_minus_down by simp
  also have "\<dots> = of_nat t" by (simp add: ntp_seconds_def)
  finally show ?thesis using assms by (simp add: unsigned_of_nat take_bit_nat_eq_self)
qed

lemma ntp_recv_valid:
  assumes "pbuf_ops_ok ops" "ntp_valid st p addr port"
  shows "ntp_recv env ops st p addr port = Some (ntp_sync_done env
    (st\<lparr>epoch_secs := ucast (secs_1970 (be32 (take 4 (drop 40 p)))), hw_ref_ms := now_ms env, synced := True\<rparr>) True)"
proof -
  have "length (take 4 (drop 40 p)) = 4" using assms(2) by (simp add: ntp_valid_def NTP_MSG_LEN_def)
  with assms show ?thesis
    by (simp add: ntp_recv_def ntp_valid_def pbuf_ops_okD NTP_MSG_LEN_def blit_def)
qed

lemma ntp_recv_invalid:
  assumes "pbuf_ops_ok ops" "\<not> ntp_valid st p addr port"
  shows "ntp_recv env ops st p addr port = Some (ntp_sync_done env st False)"
  using assms by (auto simp: ntp_recv_def ntp_valid_def pbuf_ops_okD NTP_MSG_LEN_def)

section \<open>Properties\<close>

text \<open>A client as it starts, a clock, and a server's answer for a given time.\<close>

definition ntp_fresh :: ntp_t where
  "ntp_fresh = \<lparr>ntp_server_address = 7, dns_request_sent = True, ntp_pcb = True, ntp_next_poll = 0,
     ntp_resend_alarm = 3, epoch_secs = 0, hw_ref_ms = 0, synced = False\<rparr>"

definition std_ntp_env :: "u64 \<Rightarrow> ntp_env" where
  "std_ntp_env us = \<lparr>init_us = us, now_us = us, now_ms = us div 1000, poll_timeout = us + 30000000,
     diff_us = (\<lambda>a b. uint b - uint a), alarm_id = 1, dns_err = ERR_INPROGRESS, dns_addr = None,
     pbuf_alloc_ok = True, udp_new_ok = True, calloc_ok = True\<rparr>"

definition ntp_answer :: "nat \<Rightarrow> u8 list" where
  "ntp_answer t = [0x24, 2] @ replicate 38 0 @ be32_of (ntp_seconds t) @ replicate 4 0"

lemma ntp_answer_valid: "ntp_valid ntp_fresh (ntp_answer t) 7 123"
  by (simp add: ntp_valid_def ntp_fresh_def ntp_answer_def NTP_PORT_def NTP_MSG_LEN_def be32_of_def)

lemma ntp_answer_seconds: "take 4 (drop 40 (ntp_answer t)) = be32_of (ntp_seconds t)"
  by (simp add: ntp_answer_def be32_of_def)

text \<open>
  C35 (ntp_epoch_exact). A valid datagram sets the clock to exactly the server's time, for every time up to the year
  2106: the 32-bit arithmetic absorbs the wrap of the NTP era in 2036. The request is over.
\<close>

theorem ntp_epoch_exact:
  assumes "pbuf_ops_ok ops" "ntp_valid st p addr port" "take 4 (drop 40 p) = be32_of (ntp_seconds t)" "t < 2 ^ 32"
  shows "\<exists>st' calls. ntp_recv env ops st p addr port = Some (st', calls) \<and> synced st' \<and> epoch_secs st' = of_nat t \<and>
    hw_ref_ms st' = now_ms env \<and> \<not> dns_request_sent st'"
  unfolding ntp_recv_valid[OF assms(1,2)] assms(3) be32_be32_of secs_1970_ntp_seconds[OF assms(4)]
  by (auto simp: ntp_sync_done_def Let_def)

theorem ntp_epoch_exact_witness:
  "\<exists>st' calls. ntp_recv (std_ntp_env 5000) std_pbuf ntp_fresh (ntp_answer 2500000000) 7 123 = Some (st', calls) \<and>
     epoch_secs st' = 2500000000"
  using ntp_epoch_exact[OF std_pbuf_ok ntp_answer_valid ntp_answer_seconds, of 2500000000 "std_ntp_env 5000"] by auto

text \<open>
  Any other datagram leaves the clock as it was, ends the request and schedules the next
  poll.
\<close>

theorem ntp_rejects_invalid:
  assumes "pbuf_ops_ok ops" "\<not> ntp_valid st p addr port"
  shows "\<exists>st' calls. ntp_recv env ops st p addr port = Some (st', calls) \<and> epoch_secs st' = epoch_secs st \<and>
    hw_ref_ms st' = hw_ref_ms st \<and> synced st' = synced st \<and> \<not> dns_request_sent st' \<and>
    ntp_next_poll st' = poll_timeout env"
  unfolding ntp_recv_invalid[OF assms] by (auto simp: ntp_sync_done_def Let_def)

theorem ntp_rejects_invalid_witness:
  "\<exists>st' calls. ntp_recv (std_ntp_env 5000) std_pbuf ntp_fresh ([0x24, 0] @ replicate 46 0) 7 123 = Some (st', calls) \<and>
     \<not> synced st' \<and> \<not> dns_request_sent st'"
proof -
  have "\<not> ntp_valid ntp_fresh ([0x24, 0] @ replicate 46 0) 7 123" by (simp add: ntp_valid_def)
  from ntp_rejects_invalid[OF std_pbuf_ok this, of "std_ntp_env 5000"] show ?thesis
    by (auto simp: ntp_fresh_def)
qed

text \<open>
  C36 (ntp_one_alarm). In every reachable state of the client a poll that starts a request finds no live alarm: a
  pending alarm id is never overwritten, so every alarm is cancelled or fires.
\<close>

theorem ntp_one_alarm:
  assumes "reaches ntp_started ntp_trans st" "ntp_step st (Poll env) = Some (st', calls)"
    and "Add_alarm_ms n \<in> set calls"
  shows "\<not> ntp_resend_alarm st > 0 \<and> \<not> dns_request_sent st"
proof -
  from assms(2,3) have "\<not> dns_request_sent st"
    by (auto simp: ntp_poll_def split: if_splits)
  with ntp.reaches_inv[OF assms(1)] show ?thesis by (auto simp: ntp_inv_def)
qed

theorem ntp_one_alarm_witness:
  "\<exists>st. ntp_init (std_ntp_env 10) = Some st \<and> \<not> ntp_resend_alarm st > 0 \<and> \<not> dns_request_sent st"
proof -
  obtain st where st: "ntp_init (std_ntp_env 10) = Some st" "ntp_next_poll st = 10" "\<not> dns_request_sent st"
    by (auto simp: ntp_init_def std_ntp_env_def)
  have r: "reaches ntp_started ntp_trans st"
    by (rule reaches_start) (use st(1) in \<open>auto simp: ntp_started_def\<close>)
  have "\<exists>st' calls. ntp_step st (Poll (std_ntp_env 20)) = Some (st', calls) \<and> Add_alarm_ms NTP_RESEND_MS \<in> set calls"
    using st(2,3) by (simp add: ntp_poll_def std_ntp_env_def Let_def)
  with ntp_one_alarm[OF r] st(1) show ?thesis by blast
qed

text \<open>
  C38 (ntp_retries). After a request failed (its alarm fired), the first poll past the poll interval looks the server
  up again.
\<close>

theorem ntp_retries:
  assumes "time_env_ok env'" "ntp_step st (Alarm_fires env) = Some (st1, calls)" "poll_timeout env < now_us env'"
  shows "\<exists>st2 calls'. ntp_step st1 (Poll env') = Some (st2, calls') \<and> Dns_lookup ''pool.ntp.org'' \<in> set calls'"
proof -
  have "st1 = fst (ntp_sync_done env st False)" using assms(2) by (simp add: ntp_failed_handler_def)
  then have "dns_request_sent st1 = False" "ntp_next_poll st1 = poll_timeout env" by (simp_all add: ntp_sync_done_fields)
  moreover have "diff_us env' (now_us env') (poll_timeout env) < 0"
    using assms(1,3) by (simp add: time_env_ok_def word_less_def)
  ultimately show ?thesis
    by (auto simp: ntp_poll_def Let_def split: prod.splits)
qed

theorem ntp_retries_witness:
  "\<exists>st1 c1 st2 c2. ntp_step ntp_fresh (Alarm_fires (std_ntp_env 0)) = Some (st1, c1) \<and>
     ntp_step st1 (Poll (std_ntp_env 30000001)) = Some (st2, c2) \<and> Dns_lookup ''pool.ntp.org'' \<in> set c2"
proof -
  have "time_env_ok (std_ntp_env 30000001)" by (simp add: time_env_ok_def std_ntp_env_def)
  moreover obtain st1 c1 where s: "ntp_step ntp_fresh (Alarm_fires (std_ntp_env 0)) = Some (st1, c1)"
    by (simp add: ntp_failed_handler_def) (metis prod.exhaust)
  moreover have "poll_timeout (std_ntp_env 0) < now_us (std_ntp_env 30000001)" by (simp add: std_ntp_env_def)
  ultimately show ?thesis using ntp_retries by blast
qed

text \<open>
  C39 (wall_clock). The wall clock is the synchronised time plus the milliseconds since, offline before the first
  synchronisation. The counter it reads has 32 bits: once it has wrapped (after 49.7 days)
  the wall clock is too early by \<open>2 ^ 32\<close> milliseconds.
\<close>

theorem wall_clock:
  assumes "ntp_state ctx = Some ntp" "unat (hw_ref_ms ntp) < 2 ^ 32" "d < 2 ^ 32"
    and "now = of_nat ((unat (hw_ref_ms ntp) + d) mod 2 ^ 32)"
  shows "get_current_epoch ctx now =
    (if \<not> synced ntp then (DT_ERR_OFFLINE, None)
     else (DT_ERR_OK, Some (epoch_secs ntp * 1000 + of_nat d -
             (if unat (hw_ref_ms ntp) + d < 2 ^ 32 then 0 else 2 ^ 32))))"
proof -
  have "now - hw_ref_ms ntp = of_nat d - (if unat (hw_ref_ms ntp) + d < 2 ^ 32 then 0 else 2 ^ 32)"
  proof (cases "unat (hw_ref_ms ntp) + d < 2 ^ 32")
    case False
    with assms(2,3) have "(unat (hw_ref_ms ntp) + d) mod 2 ^ 32 + 2 ^ 32 = unat (hw_ref_ms ntp) + d"
      by (simp add: le_mod_geq)
    then have "of_nat ((unat (hw_ref_ms ntp) + d) mod 2 ^ 32) + (2 ^ 32 :: u64) = of_nat (unat (hw_ref_ms ntp) + d)"
      by (metis of_nat_add of_nat_numeral of_nat_power)
    then have "now + 2 ^ 32 = hw_ref_ms ntp + of_nat d" using assms(4) by simp
    with False show ?thesis by (simp add: algebra_simps eq_diff_eq)
  qed (simp add: assms(4))
  with assms(1) show ?thesis by (simp add: get_current_epoch_def Let_def algebra_simps)
qed

theorem wall_clock_witness:
  "get_current_epoch (zero_ctx\<lparr>ntp_state := Some (ntp_fresh\<lparr>epoch_secs := 1700000000, hw_ref_ms := 2000, synced := True\<rparr>)\<rparr>) 2500 =
     (DT_ERR_OK, Some 1700000000500)"
  using wall_clock[of "zero_ctx\<lparr>ntp_state := Some (ntp_fresh\<lparr>epoch_secs := 1700000000, hw_ref_ms := 2000, synced := True\<rparr>)\<rparr>"
      "ntp_fresh\<lparr>epoch_secs := 1700000000, hw_ref_ms := 2000, synced := True\<rparr>" 500 2500] by simp
end
