(* ===== verification/B64.thy ===== *)
theory B64
  imports Ctx Contracts
begin

text \<open>
  Model of \<open>src/b64/b64.c\<close>: the base64 encoder with its growing output buffer, a reference
  encoding after RFC 4648 that uses nothing of the code's model, and a decoder that inverts it.

  The output block is written front to back only, so the model keeps the characters written
  so far (\<open>enc_out\<close>, whose length is the C variable \<open>size\<close>) and the capacity \<open>bufc\<close> times
  64 KiB; a write beyond the capacity is undefined behaviour. Of the three-byte array \<open>tmp\<close>
  the model keeps the first \<open>i\<close> bytes, the only ones the code reads.
\<close>

definition B64_BUFFER_SIZE :: nat where "B64_BUFFER_SIZE = 1024 * 64"

record b64_buffer =
  enc_out :: string
  bufc :: nat

text \<open>The allocator: whether the first allocation and each later \<open>realloc\<close> succeed.\<close>

record b64_env =
  b64_malloc :: bool
  b64_realloc :: "nat \<Rightarrow> bool"

definition b64_table :: string where
  "b64_table = ''ABCDEFGHIJKLMNOPQRSTUVWXYZabcdefghijklmnopqrstuvwxyz0123456789+/''"

section \<open>The encoder\<close>

definition b64_buf_malloc :: "b64_env \<Rightarrow> b64_buffer option" where
  "b64_buf_malloc env = (if b64_malloc env then Some \<lparr>enc_out = [], bufc = 1\<rparr> else None)"

function grow_bufc :: "nat \<Rightarrow> nat \<Rightarrow> nat" where
  "grow_bufc sz n = (if sz > n * B64_BUFFER_SIZE then grow_bufc sz (n + 1) else n)"
  by pat_completeness auto
termination
  by (relation "measure (\<lambda>(sz, n). sz - n)") (auto simp: B64_BUFFER_SIZE_def)

declare grow_bufc.simps [simp del]

text \<open>\<open>None\<close> is the return value -1.\<close>

definition b64_buf_realloc :: "b64_env \<Rightarrow> b64_buffer \<Rightarrow> nat \<Rightarrow> b64_buffer option" where
  "b64_buf_realloc env buf sz =
     (if sz > bufc buf * B64_BUFFER_SIZE
      then (let n = grow_bufc sz (bufc buf)
            in if b64_realloc env (B64_BUFFER_SIZE * n) then Some (buf\<lparr>bufc := n\<rparr>) else None)
      else Some buf)"

text \<open>The store \<open>encbuf.ptr[size++] = c\<close>.\<close>

definition enc_put :: "b64_buffer \<Rightarrow> char \<Rightarrow> b64_buffer option" where
  "enc_put buf c =
     (if length (enc_out buf) < bufc buf * B64_BUFFER_SIZE
      then Some (buf\<lparr>enc_out := enc_out buf @ [c]\<rparr>) else None)"

fun enc_puts :: "b64_buffer \<Rightarrow> string \<Rightarrow> b64_buffer option" where
  "enc_puts buf [] = Some buf"
| "enc_puts buf (c # cs) = do { buf' \<leftarrow> enc_put buf c; enc_puts buf' cs }"

definition b64_quad :: "u8 \<Rightarrow> u8 \<Rightarrow> u8 \<Rightarrow> u8 list" where
  "b64_quad t0 t1 t2 =
     [drop_bit 2 (t0 AND 0xfc),
      push_bit 4 (t0 AND 0x03) + drop_bit 4 (t1 AND 0xf0),
      push_bit 2 (t1 AND 0x0f) + drop_bit 6 (t2 AND 0xc0),
      t2 AND 0x3f]"

definition b64_char :: "u8 \<Rightarrow> char" where
  "b64_char b = b64_table ! unat b"

text \<open>
  The main loop. The outer option is undefined behaviour; \<open>Inl\<close> is an early return with
  an error, \<open>Inr\<close> the bytes left in \<open>tmp\<close> and the buffer.
\<close>

fun b64_loop ::
  "b64_env \<Rightarrow> u8 list \<Rightarrow> b64_buffer \<Rightarrow> u8 list \<Rightarrow> (dt_err + u8 list \<times> b64_buffer) option" where
  "b64_loop env tmp buf [] = Some (Inr (tmp, buf))"
| "b64_loop env tmp buf (s # src) =
     (case tmp @ [s] of
        [t0, t1, t2] \<Rightarrow>
          (case b64_buf_realloc env buf (length (enc_out buf) + 4) of
             None \<Rightarrow> Some (Inl DT_ERR_MALLOC)
           | Some buf1 \<Rightarrow> do {
               buf2 \<leftarrow> enc_puts buf1 (map b64_char (b64_quad t0 t1 t2));
               b64_loop env [] buf2 src
             })
      | tmp' \<Rightarrow> b64_loop env tmp' buf src)"

text \<open>One-character appends, each preceded by its own reallocation.\<close>

fun enc_append :: "b64_env \<Rightarrow> b64_buffer \<Rightarrow> string \<Rightarrow> (dt_err + b64_buffer) option" where
  "enc_append env buf [] = Some (Inr buf)"
| "enc_append env buf (c # cs) =
     (case b64_buf_realloc env buf (length (enc_out buf) + 1) of
        None \<Rightarrow> Some (Inl DT_ERR_MALLOC)
      | Some buf1 \<Rightarrow> do { buf2 \<leftarrow> enc_put buf1 c; enc_append env buf2 cs })"

text \<open>The remainder: zero fill, \<open>i + 1\<close> characters and \<open>3 - i\<close> equals signs.\<close>

definition b64_remainder :: "b64_env \<Rightarrow> u8 list \<Rightarrow> b64_buffer \<Rightarrow> (dt_err + b64_buffer) option" where
  "b64_remainder env tmp buf =
     (if length tmp > 0
      then (let full = tmp @ replicate (3 - length tmp) 0;
                quad = b64_quad (full ! 0) (full ! 1) (full ! 2)
            in do {
              r \<leftarrow> enc_append env buf (map b64_char (take (length tmp + 1) quad));
              case r of
                Inl e \<Rightarrow> Some (Inl e)
              | Inr buf1 \<Rightarrow> enc_append env buf1 (replicate (3 - length tmp) (CHR ''=''))
            })
      else Some (Inr buf))"

text \<open>\<open>b64_encode(result + off, src, len)\<close>: the error code and the caller's block.\<close>

definition b64_encode :: "b64_env \<Rightarrow> string \<Rightarrow> nat \<Rightarrow> u8 list \<Rightarrow> (dt_err \<times> string) option" where
  "b64_encode env result off src =
     (case b64_buf_malloc env of
        None \<Rightarrow> Some (DT_ERR_MALLOC, result)
      | Some encbuf \<Rightarrow> do {
          r \<leftarrow> b64_loop env [] encbuf src;
          case r of
            Inl e \<Rightarrow> Some (e, result)
          | Inr (tmp, buf1) \<Rightarrow> do {
              r2 \<leftarrow> b64_remainder env tmp buf1;
              case r2 of
                Inl e \<Rightarrow> Some (e, result)
              | Inr buf2 \<Rightarrow>
                  (case b64_buf_realloc env buf2 (length (enc_out buf2) + 1) of
                     None \<Rightarrow> Some (DT_ERR_MALLOC, result)
                   | Some buf3 \<Rightarrow> do {
                       buf4 \<leftarrow> enc_put buf3 NUL;
                       s \<leftarrow> c_str (enc_out buf4);
                       result' \<leftarrow> c_strcpy result off s;
                       Some (DT_ERR_OK, result')
                     })
            }
        })"

section \<open>The standard encoding and its inverse\<close>

text \<open>
  The encoding of RFC 4648, stated without the encoder's table and shifts: the alphabet by
  ranges of characters, and the four digits to base 64 of the number that three bytes form.
\<close>

definition rfc_char :: "nat \<Rightarrow> char" where
  "rfc_char n =
     (if n < 26 then char_of (65 + n) else if n < 52 then char_of (97 + (n - 26))
      else if n < 62 then char_of (48 + (n - 52)) else if n = 62 then CHR ''+'' else CHR ''/'')"

definition sextets :: "nat \<Rightarrow> nat \<Rightarrow> nat \<Rightarrow> nat list" where
  "sextets a b c =
     (let n = a * 2 ^ 16 + b * 2 ^ 8 + c
      in [n div 64 ^ 3, n div 64 ^ 2 mod 64, n div 64 mod 64, n mod 64])"

fun b64_spec :: "u8 list \<Rightarrow> string" where
  "b64_spec [] = []"
| "b64_spec [a] = map rfc_char (take 2 (sextets (unat a) 0 0)) @ ''==''"
| "b64_spec [a, b] = map rfc_char (take 3 (sextets (unat a) (unat b) 0)) @ ''=''"
| "b64_spec (a # b # c # src) = map rfc_char (sextets (unat a) (unat b) (unat c)) @ b64_spec src"

definition b64_index :: "char \<Rightarrow> nat option" where
  "b64_index c = find_char c (map rfc_char [0..<64])"

definition dec0 :: "nat \<Rightarrow> nat \<Rightarrow> u8" where "dec0 q0 q1 = of_nat (q0 * 4 + q1 div 16)"
definition dec1 :: "nat \<Rightarrow> nat \<Rightarrow> u8" where "dec1 q1 q2 = of_nat (q1 mod 16 * 16 + q2 div 4)"
definition dec2 :: "nat \<Rightarrow> nat \<Rightarrow> u8" where "dec2 q2 q3 = of_nat (q2 mod 4 * 64 + q3)"

fun b64_decode :: "string \<Rightarrow> u8 list option" where
  "b64_decode [] = Some []"
| "b64_decode (c0 # c1 # c2 # c3 # cs) =
     (if cs = [] \<and> c2 = CHR ''='' \<and> c3 = CHR ''=''
      then do { q0 \<leftarrow> b64_index c0; q1 \<leftarrow> b64_index c1; Some [dec0 q0 q1] }
      else if cs = [] \<and> c3 = CHR ''=''
      then do { q0 \<leftarrow> b64_index c0; q1 \<leftarrow> b64_index c1; q2 \<leftarrow> b64_index c2; Some [dec0 q0 q1, dec1 q1 q2] }
      else do {
        q0 \<leftarrow> b64_index c0; q1 \<leftarrow> b64_index c1; q2 \<leftarrow> b64_index c2; q3 \<leftarrow> b64_index c3;
        rest \<leftarrow> b64_decode cs;
        Some (dec0 q0 q1 # dec1 q1 q2 # dec2 q2 q3 # rest)
      })"
| "b64_decode _ = None"

section \<open>The four sextets of three bytes\<close>

lemma unat_and_mask8: "unat (w AND mask n :: u8) = unat w mod 2 ^ n"
  by (simp only: take_bit_eq_mask[symmetric] unsigned_take_bit_eq) (simp add: take_bit_eq_mod)

lemma unat_and_low: "unat (w AND 3 :: u8) = unat w mod 4" "unat (w AND 15 :: u8) = unat w mod 16"
  "unat (w AND 63 :: u8) = unat w mod 64"
  using unat_and_mask8[of w 2] unat_and_mask8[of w 4] unat_and_mask8[of w 6]
  by (simp_all add: mask_eq_exp_minus_1)

lemma unat_and_high:
  "unat (drop_bit 2 (w AND 0xfc) :: u8) = unat w div 4"
  "unat (drop_bit 4 (w AND 0xf0) :: u8) = unat w div 16"
  "unat (drop_bit 6 (w AND 0xc0) :: u8) = unat w div 64"
proof -
  have d: "unat (drop_bit n w AND mask m :: u8) = unat w div 2 ^ n" if "n + m = 8" for n m
  proof -
    have "unat w div 2 ^ n < 2 ^ m"
      using unat_u8_lt[of w] that by (simp add: less_mult_imp_div_less power_add[symmetric] add.commute)
    then show ?thesis unfolding unat_and_mask8 unat_drop_bit_eq by (simp add: drop_bit_eq_div)
  qed
  show "unat (drop_bit 2 (w AND 0xfc) :: u8) = unat w div 4"
    using d[of 2 6] by (simp add: drop_bit_and mask_eq_exp_minus_1)
  show "unat (drop_bit 4 (w AND 0xf0) :: u8) = unat w div 16"
    using d[of 4 4] by (simp add: drop_bit_and mask_eq_exp_minus_1)
  show "unat (drop_bit 6 (w AND 0xc0) :: u8) = unat w div 64"
    using d[of 6 2] by (simp add: drop_bit_and mask_eq_exp_minus_1)
qed

lemma unat_quad:
  "map unat (b64_quad a b c) =
     [unat a div 4, unat a mod 4 * 16 + unat b div 16, unat b mod 16 * 4 + unat c div 64, unat c mod 64]"
proof -
  have "unat b div 16 < 16" "unat c div 64 < 4" using unat_u8_lt[of b] unat_u8_lt[of c] by simp_all
  then have "unat (push_bit 4 (a AND 3) + drop_bit 4 (b AND 0xf0)) = unat a mod 4 * 16 + unat b div 16"
    "unat (push_bit 2 (b AND 15) + drop_bit 6 (c AND 0xc0)) = unat b mod 16 * 4 + unat c div 64"
    by (simp_all only: push_bit_eq_mult unat_word_ariths unat_and_high unat_and_low) simp_all
  then show ?thesis
    unfolding b64_quad_def list.map unat_and_high unat_and_low by simp
qed

section \<open>The decoder inverts the encoding\<close>

lemma find_char_nth: "distinct xs \<Longrightarrow> i < length xs \<Longrightarrow> find_char (xs ! i) xs = Some i"
proof (induction xs arbitrary: i)
  case (Cons x xs)
  then show ?case by (cases i) (auto simp: nth_mem)
qed simp

lemma b64_table_facts: "length b64_table = 64" "distinct b64_table" "CHR ''='' \<notin> set b64_table" "NUL \<notin> set b64_table"
  by (simp_all add: b64_table_def)

lemma b64_table_standard: "b64_table = map rfc_char [0..<64]"
  by code_simp

lemma b64_char_in_table: "unat q < 64 \<Longrightarrow> b64_char q \<in> set b64_table"
  by (simp add: b64_char_def b64_table_facts)

lemma b64_char_not_pad: "unat q < 64 \<Longrightarrow> b64_char q \<noteq> CHR ''=''"
  using b64_char_in_table b64_table_facts(3) by metis

lemma b64_index_char: "unat q < 64 \<Longrightarrow> b64_index (b64_char q) = Some (unat q)"
  by (simp add: b64_index_def b64_char_def find_char_nth b64_table_facts flip: b64_table_standard)

lemma quad_split:
  obtains q0 q1 q2 q3 where "b64_quad a b c = [q0, q1, q2, q3]"
    "unat q0 = unat a div 4" "unat q1 = unat a mod 4 * 16 + unat b div 16"
    "unat q2 = unat b mod 16 * 4 + unat c div 64" "unat q3 = unat c mod 64"
    "unat q0 < 64" "unat q1 < 64" "unat q2 < 64" "unat q3 < 64"
proof -
  have l: "unat a div 4 < 64" "unat a mod 4 * 16 + unat b div 16 < 64"
    "unat b mod 16 * 4 + unat c div 64 < 64" "unat c mod 64 < 64"
  proof -
    have "unat a div 4 < 64" "unat b div 16 < 16" "unat c div 64 < 4"
      using unat_u8_lt[of a] unat_u8_lt[of b] unat_u8_lt[of c] by simp_all
    moreover have "unat a mod 4 < 4" "unat b mod 16 < 16" "unat c mod 64 < 64" by simp_all
    ultimately show "unat a div 4 < 64" "unat a mod 4 * 16 + unat b div 16 < 64"
      "unat b mod 16 * 4 + unat c div 64 < 64" "unat c mod 64 < 64" by linarith+
  qed
  obtain q0 q1 q2 q3 where q: "b64_quad a b c = [q0, q1, q2, q3]" by (simp add: b64_quad_def)
  with unat_quad[of a b c] l show ?thesis by (intro that[OF q]) simp_all
qed

text \<open>The encoder's table and shifts give the same characters, so the reference follows the quads.\<close>

lemma b64_char_standard: "unat q < 64 \<Longrightarrow> b64_char q = rfc_char (unat q)"
  by (simp add: b64_char_def b64_table_standard)

lemma mod_of_sum: "x = r + k * m \<Longrightarrow> r < m \<Longrightarrow> x mod m = r" for x :: nat
  by simp

lemma sextets_eq:
  assumes "b < 256" "c < 256"
  shows "sextets a b c = [a div 4, a mod 4 * 16 + b div 16, b mod 16 * 4 + c div 64, c mod 64]"
proof -
  let ?n = "a * 65536 + b * 256 + c"
  have bc: "b div 16 < 16" "c div 64 < 4" using assms by simp_all
  have n1: "?n div 64 = a * 1024 + b * 4 + c div 64" by simp
  have n2: "?n div 64 div 64 = a * 16 + b div 16"
  proof -
    have "a * 1024 + b * 4 + c div 64 = (a * 16 + b div 16) * 64 + (b mod 16 * 4 + c div 64)"
      by presburger
    moreover have "b mod 16 * 4 + c div 64 < 64" using bc(2) by (simp add: mod_less_divisor[of 16 b, simplified] less_Suc_eq_le)
    ultimately show ?thesis unfolding n1 by simp
  qed
  have n3: "?n div 64 div 64 div 64 = a div 4" unfolding n2 using bc(1) by linarith
  have "?n div 262144 = a div 4" using n3 by (simp flip: div_mult2_eq)
  moreover have "?n div 4096 mod 64 = a mod 4 * 16 + b div 16"
  proof -
    have "?n div 4096 = a * 16 + b div 16" using n2 by (simp flip: div_mult2_eq)
    moreover have "(a * 16 + q) mod 64 = a mod 4 * 16 + q" if "q < 16" for q
    proof -
      have "a mod 4 \<le> 3" using mod_less_divisor[of 4 a] by linarith
      then have "a mod 4 * 16 + q < 64" using that by linarith
      moreover have "a * 16 + q = a mod 4 * 16 + q + a div 4 * 64" by presburger
      ultimately show ?thesis by (metis mod_of_sum)
    qed
    ultimately show ?thesis using bc(1) by simp
  qed
  moreover have "?n div 64 mod 64 = b mod 16 * 4 + c div 64"
  proof -
    have "(a * 1024 + b * 4 + q) mod 64 = b mod 16 * 4 + q" if "q < 4" for q
    proof -
      have "b mod 16 \<le> 15" using mod_less_divisor[of 16 b] by linarith
      then have "b mod 16 * 4 + q < 64" using that by linarith
      moreover have "a * 1024 + b * 4 + q = b mod 16 * 4 + q + (a * 16 + b div 16) * 64" by presburger
      ultimately show ?thesis by (metis mod_of_sum)
    qed
    then show ?thesis unfolding n1 using bc(2) by blast
  qed
  moreover have "?n mod 64 = c mod 64"
  proof -
    have "?n = c + (a * 1024 + b * 4) * 64" by simp
    then show ?thesis by (simp only: mod_mult_self1)
  qed
  ultimately show ?thesis by (simp add: sextets_def)
qed

lemma quad_standard: "map b64_char (b64_quad a b c) = map rfc_char (sextets (unat a) (unat b) (unat c))"
proof -
  obtain q0 q1 q2 q3 where q: "b64_quad a b c = [q0, q1, q2, q3]"
    "unat q0 = unat a div 4" "unat q1 = unat a mod 4 * 16 + unat b div 16"
    "unat q2 = unat b mod 16 * 4 + unat c div 64" "unat q3 = unat c mod 64"
    "unat q0 < 64" "unat q1 < 64" "unat q2 < 64" "unat q3 < 64"
    by (rule quad_split[of a b c])
  have "sextets (unat a) (unat b) (unat c) = map unat [q0, q1, q2, q3]"
    using sextets_eq[OF unat_u8_lt[of b] unat_u8_lt[of c]] q(2-5) by simp
  with q(1,6-9) show ?thesis by (simp add: b64_char_standard)
qed

declare b64_spec.simps [simp del]

lemma b64_spec_quads [simp]:
  "b64_spec [] = []"
  "b64_spec [a] = map b64_char (take 2 (b64_quad a 0 0)) @ ''==''"
  "b64_spec [a, b] = map b64_char (take 3 (b64_quad a b 0)) @ ''=''"
  "b64_spec (a # b # c # src) = map b64_char (b64_quad a b c) @ b64_spec src"
  using quad_standard[of a 0 0] quad_standard[of a b 0] quad_standard[of a b c]
  by (simp_all add: b64_spec.simps flip: take_map)

lemma u8_of_unat: "of_nat (unat w) = (w :: u8)"
  by simp

lemma dec_quad:
  "dec0 (unat a div 4) (unat a mod 4 * 16 + unat b div 16) = a"
  "dec1 (unat a mod 4 * 16 + unat b div 16) (unat b mod 16 * 4 + unat c div 64) = b"
  "dec2 (unat b mod 16 * 4 + unat c div 64) (unat c mod 64) = c"
proof -
  have l: "unat b div 16 < 16" "unat c div 64 < 4" using unat_u8_lt[of b] unat_u8_lt[of c] by simp_all
  have "unat a div 4 * 4 + (unat a mod 4 * 16 + unat b div 16) div 16 = unat a"
    using l by (simp add: div_add1_eq)
  then show "dec0 (unat a div 4) (unat a mod 4 * 16 + unat b div 16) = a"
    unfolding dec0_def by (simp only: u8_of_unat)
  have "(unat a mod 4 * 16 + unat b div 16) mod 16 * 16 + (unat b mod 16 * 4 + unat c div 64) div 4 = unat b"
    using l by (simp add: div_add1_eq)
  then show "dec1 (unat a mod 4 * 16 + unat b div 16) (unat b mod 16 * 4 + unat c div 64) = b"
    unfolding dec1_def by (simp only: u8_of_unat)
  have "(unat b mod 16 * 4 + unat c div 64) mod 4 * 64 + unat c mod 64 = unat c"
    using l by simp
  then show "dec2 (unat b mod 16 * 4 + unat c div 64) (unat c mod 64) = c"
    unfolding dec2_def by (simp only: u8_of_unat)
qed

lemma b64_decode_spec: "b64_decode (b64_spec src) = Some src"
proof (induction src rule: b64_spec.induct)
  case (2 a)
  obtain q0 q1 q2 q3 where q: "b64_quad a 0 0 = [q0, q1, q2, q3]"
    "unat q0 = unat a div 4" "unat q1 = unat a mod 4 * 16 + unat (0::u8) div 16" "unat q0 < 64" "unat q1 < 64"
    by (rule quad_split[of a 0 0])
  then show ?case using dec_quad(1)[of a 0] by (simp add: b64_index_char b64_char_not_pad)
next
  case (3 a b)
  obtain q0 q1 q2 q3 where q: "b64_quad a b 0 = [q0, q1, q2, q3]"
    "unat q0 = unat a div 4" "unat q1 = unat a mod 4 * 16 + unat b div 16"
    "unat q2 = unat b mod 16 * 4 + unat (0::u8) div 64" "unat q0 < 64" "unat q1 < 64" "unat q2 < 64"
    by (rule quad_split[of a b 0])
  then show ?case using dec_quad(1)[of a b] dec_quad(2)[of a b 0]
    by (simp add: b64_index_char b64_char_not_pad)
next
  case (4 a b c src)
  obtain q0 q1 q2 q3 where q: "b64_quad a b c = [q0, q1, q2, q3]"
    "unat q0 = unat a div 4" "unat q1 = unat a mod 4 * 16 + unat b div 16"
    "unat q2 = unat b mod 16 * 4 + unat c div 64" "unat q3 = unat c mod 64"
    "unat q0 < 64" "unat q1 < 64" "unat q2 < 64" "unat q3 < 64"
    by (rule quad_split[of a b c])
  then show ?case using dec_quad(1)[of a b] dec_quad(2)[of a b c] dec_quad(3)[of b c] 4 by (simp add: b64_index_char b64_char_not_pad)
qed simp

interpretation base64: codec b64_spec b64_decode
  by unfold_locales (rule b64_decode_spec)

lemma length_b64_spec: "length (b64_spec src) = 4 * ((length src + 2) div 3)"
proof (induction src rule: b64_spec.induct)
  case (4 a b c src)
  have "(length (a # b # c # src) + 2) div 3 = Suc ((length src + 2) div 3)" by simp
  with 4 show ?case by (simp add: b64_quad_def)
qed (simp_all add: b64_quad_def)

lemma quad_chars: "set (map b64_char (b64_quad a b c)) \<subseteq> set b64_table"
proof -
  obtain q0 q1 q2 q3 where "b64_quad a b c = [q0, q1, q2, q3]"
    "unat q0 < 64" "unat q1 < 64" "unat q2 < 64" "unat q3 < 64"
    by (rule quad_split[of a b c])
  then show ?thesis by (simp add: b64_char_in_table)
qed

lemma b64_spec_chars: "set (b64_spec src) \<subseteq> insert (CHR ''='') (set b64_table)"
proof (induction src rule: b64_spec.induct)
  case (2 a)
  then show ?case using quad_chars[of a 0 0] by (auto dest: in_set_takeD)
next
  case (3 a b)
  then show ?case using quad_chars[of a b 0] by (auto dest: in_set_takeD)
next
  case (4 a b c src)
  then show ?case using quad_chars[of a b c] by auto
qed simp

lemma is_cstring_b64_spec: "is_cstring (b64_spec src)"
  using b64_spec_chars[of src] b64_table_facts(4) by (auto simp: is_cstring_def)

section \<open>The loop computes the standard encoding\<close>

definition b64_env_ok :: "b64_env \<Rightarrow> bool" where
  "b64_env_ok env \<longleftrightarrow> b64_malloc env \<and> (\<forall>n. b64_realloc env n)"

definition buf_ok :: "b64_buffer \<Rightarrow> bool" where
  "buf_ok buf \<longleftrightarrow> length (enc_out buf) \<le> bufc buf * B64_BUFFER_SIZE"

lemma grow_bufc_enough: "sz \<le> grow_bufc sz n * B64_BUFFER_SIZE"
proof (induction sz n rule: grow_bufc.induct)
  case (1 sz n)
  then show ?case by (subst grow_bufc.simps) auto
qed

lemma realloc_room:
  assumes "b64_env_ok env"
  shows "\<exists>n. b64_buf_realloc env buf sz = Some (buf\<lparr>bufc := n\<rparr>) \<and> sz \<le> n * B64_BUFFER_SIZE"
proof (cases "sz > bufc buf * B64_BUFFER_SIZE")
  case True
  with assms grow_bufc_enough show ?thesis
    by (intro exI[of _ "grow_bufc sz (bufc buf)"]) (simp add: b64_buf_realloc_def b64_env_ok_def Let_def)
next
  case False
  then show ?thesis by (intro exI[of _ "bufc buf"]) (simp add: b64_buf_realloc_def)
qed

lemma enc_puts_append:
  "length (enc_out buf) + length cs \<le> bufc buf * B64_BUFFER_SIZE \<Longrightarrow>
   enc_puts buf cs = Some (buf\<lparr>enc_out := enc_out buf @ cs\<rparr>)"
  by (induction cs arbitrary: buf) (auto simp: enc_put_def)

lemma enc_append_all:
  assumes "b64_env_ok env"
  shows "\<exists>n. enc_append env buf cs = Some (Inr \<lparr>enc_out = enc_out buf @ cs, bufc = n\<rparr>) \<and>
    (length (enc_out buf) \<le> bufc buf * B64_BUFFER_SIZE \<longrightarrow> length (enc_out buf @ cs) \<le> n * B64_BUFFER_SIZE)"
proof (induction cs arbitrary: buf)
  case Nil
  show ?case by (intro exI[of _ "bufc buf"]) (cases buf, simp)
next
  case (Cons c cs)
  obtain n where n: "b64_buf_realloc env buf (length (enc_out buf) + 1) = Some (buf\<lparr>bufc := n\<rparr>)"
    "length (enc_out buf) + 1 \<le> n * B64_BUFFER_SIZE"
    using realloc_room[OF assms] by blast
  then have "enc_append env buf (c # cs) = enc_append env \<lparr>enc_out = enc_out buf @ [c], bufc = n\<rparr> cs"
    by (cases buf) (simp add: enc_put_def)
  with Cons.IH[of "\<lparr>enc_out = enc_out buf @ [c], bufc = n\<rparr>"] n(2) show ?case by auto
qed

lemma b64_loop_correct:
  assumes "b64_env_ok env" "length tmp < 3"
  shows "\<exists>tmp' buf'. b64_loop env tmp buf src = Some (Inr (tmp', buf')) \<and> length tmp' < 3 \<and>
    enc_out buf @ b64_spec (tmp @ src) = enc_out buf' @ b64_spec tmp'"
  using assms(2)
proof (induction src arbitrary: tmp buf)
  case Nil
  then show ?case by simp
next
  case (Cons s src)
  show ?case
  proof (cases "length tmp = 2")
    case True
    then obtain a b where t: "tmp = [a, b]" by (auto simp: length_Suc_conv numeral_2_eq_2)
    let ?q = "map b64_char (b64_quad a b s)"
    obtain n where n: "b64_buf_realloc env buf (length (enc_out buf) + 4) = Some (buf\<lparr>bufc := n\<rparr>)"
      "length (enc_out buf) + 4 \<le> n * B64_BUFFER_SIZE"
      using realloc_room[OF assms(1)] by blast
    have "enc_puts (buf\<lparr>bufc := n\<rparr>) ?q = Some (buf\<lparr>bufc := n, enc_out := enc_out buf @ ?q\<rparr>)"
      using enc_puts_append[of "buf\<lparr>bufc := n\<rparr>" ?q] n(2) by (simp add: b64_quad_def)
    with Cons.IH[of "[]" "buf\<lparr>bufc := n, enc_out := enc_out buf @ ?q\<rparr>"] n(1) t show ?thesis by auto
  next
    case False
    with Cons.prems consider "tmp = []" | a where "tmp = [a]"
      by (cases tmp; cases "tl tmp") auto
    then show ?thesis
    proof cases
      case 1
      with Cons.IH[of "[s]" buf] show ?thesis by simp
    next
      case (2 a)
      with Cons.IH[of "[a, s]" buf] show ?thesis by simp
    qed
  qed
qed

lemma b64_remainder_correct:
  assumes "b64_env_ok env" "length tmp < 3"
  shows "\<exists>n. b64_remainder env tmp buf = Some (Inr \<lparr>enc_out = enc_out buf @ b64_spec tmp, bufc = n\<rparr>)"
proof -
  consider "tmp = []" | a where "tmp = [a]" | a b where "tmp = [a, b]"
    using assms(2) by (cases tmp; cases "tl tmp"; cases "tl (tl tmp)") auto
  then show ?thesis
  proof cases
    case 1
    then show ?thesis by (intro exI[of _ "bufc buf"]) (cases buf, simp add: b64_remainder_def)
  next
    case (2 a)
    let ?q = "map b64_char (take 2 (b64_quad a 0 0))"
    obtain n where "enc_append env buf ?q = Some (Inr \<lparr>enc_out = enc_out buf @ ?q, bufc = n\<rparr>)"
      using enc_append_all[OF assms(1)] by blast
    moreover obtain n2 where "enc_append env \<lparr>enc_out = enc_out buf @ ?q, bufc = n\<rparr> ''==''
        = Some (Inr \<lparr>enc_out = enc_out buf @ ?q @ ''=='', bufc = n2\<rparr>)"
      using enc_append_all[OF assms(1), of "\<lparr>enc_out = enc_out buf @ ?q, bufc = n\<rparr>" "''==''"] by auto
    ultimately show ?thesis using 2 by (simp add: b64_remainder_def numeral_2_eq_2)
  next
    case (3 a b)
    let ?q = "map b64_char (take 3 (b64_quad a b 0))"
    obtain n where "enc_append env buf ?q = Some (Inr \<lparr>enc_out = enc_out buf @ ?q, bufc = n\<rparr>)"
      using enc_append_all[OF assms(1)] by blast
    moreover obtain n2 where "enc_append env \<lparr>enc_out = enc_out buf @ ?q, bufc = n\<rparr> ''=''
        = Some (Inr \<lparr>enc_out = enc_out buf @ ?q @ ''='', bufc = n2\<rparr>)"
      using enc_append_all[OF assms(1), of "\<lparr>enc_out = enc_out buf @ ?q, bufc = n\<rparr>" "''=''"] by auto
    ultimately show ?thesis using 3 by (simp add: b64_remainder_def numeral_3_eq_3 numeral_2_eq_2)
  qed
qed

lemma b64_encode_writes:
  assumes "b64_env_ok env"
  shows "b64_encode env result off src =
    (case c_strcpy result off (b64_spec src) of None \<Rightarrow> None | Some r \<Rightarrow> Some (DT_ERR_OK, r))"
proof -
  let ?b0 = "\<lparr>enc_out = [], bufc = 1\<rparr>"
  obtain tmp buf1 where l: "b64_loop env [] ?b0 src = Some (Inr (tmp, buf1))" "length tmp < 3"
    "b64_spec src = enc_out buf1 @ b64_spec tmp"
    using b64_loop_correct[OF assms, of "[]" ?b0 src] by auto
  obtain n where r: "b64_remainder env tmp buf1 = Some (Inr \<lparr>enc_out = b64_spec src, bufc = n\<rparr>)"
    using b64_remainder_correct[OF assms l(2), of buf1] l(3) by auto
  obtain n2 where "b64_buf_realloc env \<lparr>enc_out = b64_spec src, bufc = n\<rparr> (length (b64_spec src) + 1)
      = Some \<lparr>enc_out = b64_spec src, bufc = n2\<rparr>" "length (b64_spec src) + 1 \<le> n2 * B64_BUFFER_SIZE"
    using realloc_room[OF assms, of "\<lparr>enc_out = b64_spec src, bufc = n\<rparr>" "length (b64_spec src) + 1"] by auto
  with l(1) r assms show ?thesis
    using c_str_terminated[OF is_cstring_b64_spec[of src], of "[]"]
    by (simp add: b64_encode_def b64_buf_malloc_def b64_env_ok_def enc_put_def split: option.splits)
qed

section \<open>Properties\<close>

text \<open>The allocator that always succeeds.\<close>

definition full_b64_env :: b64_env where
  "full_b64_env = \<lparr>b64_malloc = True, b64_realloc = (\<lambda>_. True)\<rparr>"

lemma full_b64_env_ok: "b64_env_ok full_b64_env"
  by (simp add: full_b64_env_def b64_env_ok_def)

text \<open>
  C22 (b64_encode_standard). The encoder implements the standard encoding (RFC 4648): when the allocator
  succeeds and the caller's block has room, the encoded text and its terminator are written
  from \<open>off\<close> on, and every other byte of the block stays as it was.
\<close>

theorem b64_encode_standard:
  assumes "b64_env_ok env" "off + length (b64_spec src) < length result"
  shows "b64_encode env result off src =
    Some (DT_ERR_OK, take off result @ b64_spec src @ NUL # drop (off + length (b64_spec src) + 1) result)"
  unfolding b64_encode_writes[OF assms(1)] using assms(2) by (simp add: c_strcpy_def blit_def)

theorem b64_encode_standard_witness:
  "b64_encode full_b64_env (replicate 16 (CHR ''x'')) 2 [77, 97, 110, 255] =
    Some (DT_ERR_OK, ''xxTWFu/w=='' @ NUL # ''xxxxx'')"
proof -
  have s: "b64_spec [77, 97, 110, 255] = ''TWFu/w==''"
    by (simp add: b64_spec.simps sextets_def rfc_char_def char_of_def bit_0 del: b64_spec_quads)
  from b64_encode_standard[OF full_b64_env_ok, of 2 "[77, 97, 110, 255]" "replicate 16 (CHR ''x'')"]
  show ?thesis unfolding s by (simp add: numeral_2_eq_2 replicate_numeral)
qed

text \<open>
  C23 (b64_roundtrip). Decoding what the encoder wrote gives the source bytes back.
\<close>

theorem b64_roundtrip:
  assumes "b64_env_ok env" "b64_encode env result off src = Some (e, result')"
  shows "e = DT_ERR_OK \<and> (\<exists>s. c_str (drop off result') = Some s \<and> b64_decode s = Some src)"
proof -
  from assms(2) obtain r where "c_strcpy result off (b64_spec src) = Some r" "e = DT_ERR_OK" "result' = r"
    unfolding b64_encode_writes[OF assms(1)] by (auto split: option.splits)
  then have "c_str (drop off result') = Some (b64_spec src)"
    using c_str_terminated[OF is_cstring_b64_spec[of src]]
    by (auto simp: c_strcpy_def blit_def split: if_splits)
  with \<open>e = DT_ERR_OK\<close> show ?thesis by (simp add: base64.dec_enc)
qed

theorem b64_roundtrip_witness:
  "\<exists>result' s. b64_encode full_b64_env (replicate 9 NUL) 0 [77, 97, 110, 33] = Some (DT_ERR_OK, result') \<and>
     c_str result' = Some s \<and> b64_decode s = Some [77, 97, 110, 33]"
proof -
  have s: "b64_spec [77, 97, 110, 33] = ''TWFuIQ==''"
    by (simp add: b64_spec.simps sextets_def rfc_char_def char_of_def bit_0 del: b64_spec_quads)
  have "b64_encode full_b64_env (replicate 9 NUL) 0 [77, 97, 110, 33] = Some (DT_ERR_OK, ''TWFuIQ=='' @ [NUL])"
    unfolding b64_encode_writes[OF full_b64_env_ok] s by (simp add: c_strcpy_def blit_def)
  with b64_roundtrip[OF full_b64_env_ok this] show ?thesis by auto
qed

text \<open>
  C24 (b64_block_size). The encoder stays inside the caller's block exactly when the block has room for four
  characters per started group of three bytes and the terminator; one byte less is undefined
  behaviour.
\<close>

theorem b64_block_size:
  assumes "b64_env_ok env"
  shows "b64_encode env result off src = None \<longleftrightarrow> length result < off + 4 * ((length src + 2) div 3) + 1"
  unfolding b64_encode_writes[OF assms]
  by (auto simp: c_strcpy_def blit_def length_b64_spec split: option.splits)

theorem b64_block_size_witness:
  "b64_encode full_b64_env (replicate 8 NUL) 0 [77, 97, 110, 33] = None \<and>
   b64_encode full_b64_env (replicate 9 NUL) 0 [77, 97, 110, 33] \<noteq> None"
  using b64_block_size[OF full_b64_env_ok, of "replicate 8 NUL" 0 "[77, 97, 110, 33]"]
    b64_block_size[OF full_b64_env_ok, of "replicate 9 NUL" 0 "[77, 97, 110, 33]"] by simp

lemma enc_append_Inl: "enc_append env buf cs = Some (Inl e) \<Longrightarrow> e = DT_ERR_MALLOC"
  by (induction cs arbitrary: buf) (auto split: option.splits bind_splits)

lemma b64_loop_Inl: "b64_loop env tmp buf src = Some (Inl e) \<Longrightarrow> e = DT_ERR_MALLOC"
proof (induction src arbitrary: tmp buf)
  case (Cons s src)
  consider "tmp = []" | a where "tmp = [a]" | a b where "tmp = [a, b]" | a b c r where "tmp = a # b # c # r"
    by (metis list.exhaust)
  then show ?case
    using Cons by cases (auto split: option.splits bind_splits list.splits dest: Cons.IH)
qed simp

lemma b64_remainder_Inl: "b64_remainder env tmp buf = Some (Inl e) \<Longrightarrow> e = DT_ERR_MALLOC"
  by (auto simp: b64_remainder_def Let_def dest: enc_append_Inl split: if_splits bind_splits sum.splits)

text \<open>
  Whatever the allocator does, an error is \<open>DT_ERR_MALLOC\<close> and leaves the caller's
  block untouched.
\<close>

theorem b64_failed_alloc:
  assumes "b64_encode env result off src = Some (e, result')" "e \<noteq> DT_ERR_OK"
  shows "e = DT_ERR_MALLOC \<and> result' = result"
  using assms unfolding b64_encode_def
  by (auto split: option.splits bind_splits sum.splits dest: b64_loop_Inl b64_remainder_Inl)

theorem b64_failed_alloc_witness:
  "b64_encode \<lparr>b64_malloc = False, b64_realloc = (\<lambda>_. True)\<rparr> ''buf'' 0 [1, 2, 3] = Some (DT_ERR_MALLOC, ''buf'')"
proof -
  have "b64_encode \<lparr>b64_malloc = False, b64_realloc = (\<lambda>_. True)\<rparr> ''buf'' 0 [1, 2, 3] \<noteq> None \<and>
    map_option fst (b64_encode \<lparr>b64_malloc = False, b64_realloc = (\<lambda>_. True)\<rparr> ''buf'' 0 [1, 2, 3]) = Some DT_ERR_MALLOC"
    by code_simp
  then obtain e r where "b64_encode \<lparr>b64_malloc = False, b64_realloc = (\<lambda>_. True)\<rparr> ''buf'' 0 [1, 2, 3] = Some (e, r)"
    "e \<noteq> DT_ERR_OK" by auto
  with b64_failed_alloc[OF this] show ?thesis by simp
qed
end
