(* ===== verification/State_Machine.thy ===== *)
theory State_Machine
  imports Logger
begin

text \<open>
  Model of \<open>src/state/state.c\<close>: \<open>update_state\<close>, the transition function of the main loop,
  which runs after every handler. It picks the next loop state from the flags the handlers
  set, then lets a reset, a due publish and a pending log dump override the choice, in this
  order.
\<close>

section \<open>The transition function\<close>

text \<open>The switch. The branch of LOGDUMP frees the logs, the default branch logs an error.\<close>

definition switch_state :: "log_env \<Rightarrow> app_ctx \<Rightarrow> heap \<Rightarrow> (app_ctx \<times> heap) option" where
  "switch_state env ctx h =
     (case loop_state ctx of
        FLASH_INIT \<Rightarrow>
          Some (if flash_initd ctx
                then (if wifi_configd ctx then ctx\<lparr>loop_state := MQTT_INIT\<rparr>
                      else ctx\<lparr>loop_state := WIFI_CONFIG\<rparr>)
                else ctx, h)
      | WIFI_CONFIG \<Rightarrow> Some (if wifi_configd ctx then ctx\<lparr>loop_state := FLASH_WRITE\<rparr> else ctx, h)
      | FLASH_WRITE \<Rightarrow> Some (if flash_written ctx then ctx\<lparr>loop_state := MQTT_INIT\<rparr> else ctx, h)
      | MQTT_INIT \<Rightarrow> Some (if mqtt_initd ctx then ctx\<lparr>loop_state := SENSE_INIT\<rparr> else ctx, h)
      | SENSE_INIT \<Rightarrow> Some (if sense_initd ctx then ctx\<lparr>loop_state := NTP_SYNC\<rparr> else ctx, h)
      | NTP_SYNC \<Rightarrow> Some (if ntp_syncd ctx then ctx\<lparr>loop_state := MQTT_PUBLISH\<rparr> else ctx, h)
      | MQTT_PUBLISH \<Rightarrow> Some (ctx\<lparr>loop_state := MQTT_LISTEN\<rparr>, h)
      | MQTT_LISTEN \<Rightarrow> Some (ctx\<lparr>loop_state := BATT_LISTEN\<rparr>, h)
      | BATT_LISTEN \<Rightarrow> Some (ctx\<lparr>loop_state := SENSE_LISTEN\<rparr>, h)
      | SENSE_LISTEN \<Rightarrow> Some (ctx\<lparr>loop_state := LOGDUMP\<rparr>, h)
      | LOGDUMP \<Rightarrow> do { h' \<leftarrow> free_logs ctx h; Some (ctx\<lparr>loop_state := THROTTLE\<rparr>, h') }
      | THROTTLE \<Rightarrow> Some (ctx\<lparr>loop_state := MQTT_LISTEN\<rparr>, h)
      | LOOP_STATE_COUNT \<Rightarrow> do {
          (_, ctx', h') \<leftarrow> dlog env ctx h LOG_ERR (''Invalid state: 12'' @ [CHR 0x0A]);
          Some (ctx', h')
        })"

definition apply_reset :: "app_ctx \<Rightarrow> app_ctx" where
  "apply_reset ctx =
     (if reset ctx
      then ctx\<lparr>wifi_configd := False, mqtt_initd := False, ntp_syncd := False,
               loop_state := WIFI_CONFIG, reset := False\<rparr>
      else ctx)"

definition online :: "app_ctx \<Rightarrow> bool" where
  "online ctx \<longleftrightarrow> wifi_configd ctx \<and> sense_initd ctx \<and> mqtt_initd ctx \<and> ntp_syncd ctx"

definition apply_publish :: "app_ctx \<Rightarrow> app_ctx" where
  "apply_publish ctx =
     (if set_publish ctx \<and> online ctx then ctx\<lparr>loop_state := MQTT_PUBLISH, set_publish := False\<rparr> else ctx)"

definition apply_dump :: "app_ctx \<Rightarrow> app_ctx" where
  "apply_dump ctx =
     (if dump_logs ctx \<and> online ctx then ctx\<lparr>loop_state := LOGDUMP, dump_logs := False\<rparr> else ctx)"

definition update_state :: "log_env \<Rightarrow> app_ctx \<Rightarrow> heap \<Rightarrow> (app_ctx \<times> heap) option" where
  "update_state env ctx h = do {
     (ctx1, h1) \<leftarrow> switch_state env ctx h;
     Some (apply_dump (apply_publish (apply_reset ctx1)), h1)
   }"

lemmas apply_defs = apply_reset_def apply_publish_def apply_dump_def online_def

section \<open>The stages of provisioning\<close>

text \<open>What a loop state presupposes of the flags.\<close>

fun stage_of :: "loop_state \<Rightarrow> nat" where
  "stage_of FLASH_INIT = 0"
| "stage_of WIFI_CONFIG = 0"
| "stage_of FLASH_WRITE = 1"
| "stage_of MQTT_INIT = 1"
| "stage_of SENSE_INIT = 2"
| "stage_of NTP_SYNC = 3"
| "stage_of LOOP_STATE_COUNT = 5"
| "stage_of _ = 4"

definition stage_inv :: "app_ctx \<Rightarrow> bool" where
  "stage_inv ctx \<longleftrightarrow>
     loop_state ctx \<noteq> LOOP_STATE_COUNT \<and>
     (1 \<le> stage_of (loop_state ctx) \<longrightarrow> wifi_configd ctx) \<and>
     (2 \<le> stage_of (loop_state ctx) \<longrightarrow> mqtt_initd ctx) \<and>
     (3 \<le> stage_of (loop_state ctx) \<longrightarrow> sense_initd ctx) \<and>
     (4 \<le> stage_of (loop_state ctx) \<longrightarrow> ntp_syncd ctx)"

text \<open>What handlers and callbacks may do to the flags: set them.\<close>

definition flags_grow :: "app_ctx \<Rightarrow> app_ctx \<Rightarrow> bool" where
  "flags_grow c c' \<longleftrightarrow>
     loop_state c' = loop_state c \<and>
     (wifi_configd c \<longrightarrow> wifi_configd c') \<and> (mqtt_initd c \<longrightarrow> mqtt_initd c') \<and>
     (sense_initd c \<longrightarrow> sense_initd c') \<and> (ntp_syncd c \<longrightarrow> ntp_syncd c')"

lemma flags_grow_refl [simp]: "flags_grow c c"
  by (simp add: flags_grow_def)

lemma flags_grow_trans: "flags_grow a b \<Longrightarrow> flags_grow b c \<Longrightarrow> flags_grow a c"
  by (simp add: flags_grow_def)

lemma stage_inv_zero: "stage_inv zero_ctx"
  by (simp add: stage_inv_def zero_ctx_def)

lemma stage_inv_flags: "stage_inv c \<Longrightarrow> flags_grow c c' \<Longrightarrow> stage_inv c'"
  by (simp add: stage_inv_def flags_grow_def)

lemma stage_inv_switch:
  "stage_inv c \<Longrightarrow> switch_state env c h = Some (c', h') \<Longrightarrow> stage_inv c'"
  by (cases "loop_state c") (auto simp: switch_state_def stage_inv_def bind_eq_Some_conv split: if_splits)

lemma stage_inv_apply:
  "stage_inv c \<Longrightarrow> stage_inv (apply_dump (apply_publish (apply_reset c)))"
  by (simp add: apply_defs stage_inv_def)

lemma stage_inv_update:
  "stage_inv c \<Longrightarrow> update_state env c h = Some (c', h') \<Longrightarrow> stage_inv c'"
  by (auto simp: update_state_def bind_eq_Some_conv intro: stage_inv_apply stage_inv_switch)

section \<open>What an update does\<close>

text \<open>The next state as a table: the overrides first, the successor by the flags otherwise.\<close>

definition successor :: "app_ctx \<Rightarrow> loop_state" where
  "successor c =
     (case loop_state c of
        FLASH_INIT \<Rightarrow> if \<not> flash_initd c then FLASH_INIT else if wifi_configd c then MQTT_INIT else WIFI_CONFIG
      | WIFI_CONFIG \<Rightarrow> if wifi_configd c then FLASH_WRITE else WIFI_CONFIG
      | FLASH_WRITE \<Rightarrow> if flash_written c then MQTT_INIT else FLASH_WRITE
      | MQTT_INIT \<Rightarrow> if mqtt_initd c then SENSE_INIT else MQTT_INIT
      | SENSE_INIT \<Rightarrow> if sense_initd c then NTP_SYNC else SENSE_INIT
      | NTP_SYNC \<Rightarrow> if ntp_syncd c then MQTT_PUBLISH else NTP_SYNC
      | MQTT_PUBLISH \<Rightarrow> MQTT_LISTEN
      | MQTT_LISTEN \<Rightarrow> BATT_LISTEN
      | BATT_LISTEN \<Rightarrow> SENSE_LISTEN
      | SENSE_LISTEN \<Rightarrow> LOGDUMP
      | LOGDUMP \<Rightarrow> THROTTLE
      | THROTTLE \<Rightarrow> MQTT_LISTEN
      | LOOP_STATE_COUNT \<Rightarrow> LOOP_STATE_COUNT)"

definition next_state :: "app_ctx \<Rightarrow> loop_state" where
  "next_state c =
     (if reset c then WIFI_CONFIG
      else if dump_logs c \<and> online c then LOGDUMP
      else if set_publish c \<and> online c then MQTT_PUBLISH
      else successor c)"

lemma switch_state_Some:
  assumes "loop_state c \<noteq> LOOP_STATE_COUNT" "loop_state c = LOGDUMP \<longrightarrow> free_logs c h \<noteq> None"
  shows "switch_state env c h =
    Some (c\<lparr>loop_state := successor c\<rparr>, if loop_state c = LOGDUMP then the (free_logs c h) else h)"
  using assms by (cases "loop_state c") (auto simp: switch_state_def successor_def)

lemma update_state_Some:
  assumes "loop_state c \<noteq> LOOP_STATE_COUNT" "loop_state c = LOGDUMP \<longrightarrow> free_logs c h \<noteq> None"
  shows "update_state env c h =
    Some (apply_dump (apply_publish (apply_reset (c\<lparr>loop_state := successor c\<rparr>))),
          if loop_state c = LOGDUMP then the (free_logs c h) else h)"
  using switch_state_Some[OF assms] by (simp add: update_state_def)

lemma apply_next_state:
  "loop_state (apply_dump (apply_publish (apply_reset (c\<lparr>loop_state := successor c\<rparr>)))) = next_state c"
  by (auto simp: apply_defs next_state_def)

lemma update_state_None_iff:
  "loop_state c \<noteq> LOOP_STATE_COUNT \<Longrightarrow>
   update_state env c h = None \<longleftrightarrow> loop_state c = LOGDUMP \<and> free_logs c h = None"
  by (cases "loop_state c = LOGDUMP \<longrightarrow> free_logs c h \<noteq> None")
    (auto simp: update_state_Some, simp add: update_state_def switch_state_def)

section \<open>Properties\<close>

text \<open>
  C28 (update_state_table). The transition function as a table: the next loop state is the one of \<open>next_state\<close> (reset
  before log dump before publish before the flags of the current state); a reset clears the
  flags of Wi-Fi, broker and clock and nothing else of the four; a pending publish or dump
  request is taken exactly when the device is online; and only the log dump touches the
  heap.
\<close>

theorem update_state_table:
  assumes "loop_state c \<noteq> LOOP_STATE_COUNT" "loop_state c = LOGDUMP \<longrightarrow> free_logs c h \<noteq> None"
  shows "\<exists>c' h'. update_state env c h = Some (c', h') \<and> loop_state c' = next_state c \<and> \<not> reset c' \<and>
    wifi_configd c' = (wifi_configd c \<and> \<not> reset c) \<and> mqtt_initd c' = (mqtt_initd c \<and> \<not> reset c) \<and>
    ntp_syncd c' = (ntp_syncd c \<and> \<not> reset c) \<and> sense_initd c' = sense_initd c \<and>
    set_publish c' = (set_publish c \<and> (reset c \<or> \<not> online c)) \<and>
    dump_logs c' = (dump_logs c \<and> (reset c \<or> \<not> online c)) \<and>
    (loop_state c \<noteq> LOGDUMP \<longrightarrow> h' = h)"
proof -
  let ?c = "apply_dump (apply_publish (apply_reset (c\<lparr>loop_state := successor c\<rparr>)))"
  have "\<not> reset ?c \<and> wifi_configd ?c = (wifi_configd c \<and> \<not> reset c) \<and> mqtt_initd ?c = (mqtt_initd c \<and> \<not> reset c) \<and>
    ntp_syncd ?c = (ntp_syncd c \<and> \<not> reset c) \<and> sense_initd ?c = sense_initd c \<and>
    set_publish ?c = (set_publish c \<and> (reset c \<or> \<not> online c)) \<and>
    dump_logs ?c = (dump_logs c \<and> (reset c \<or> \<not> online c))"
    by (auto simp: apply_defs)
  with update_state_Some[OF assms, of env] apply_next_state[of c] show ?thesis by simp
qed

theorem update_state_table_witness:
  "\<exists>c' h'. update_state (log_env_at 0) (zero_ctx\<lparr>loop_state := SENSE_LISTEN, reset := True\<rparr>) empty_heap = Some (c', h') \<and>
    loop_state c' = WIFI_CONFIG \<and> \<not> reset c'"
  using update_state_table[of "zero_ctx\<lparr>loop_state := SENSE_LISTEN, reset := True\<rparr>" empty_heap "log_env_at 0"]
  by (auto simp: next_state_def)

text \<open>
  When a dump and a publish are requested together, the device dumps and forgets the
  publish: both requests are cleared and the next loop state is the log dump.
\<close>

theorem dump_swallows_publish:
  assumes "loop_state c \<notin> {LOGDUMP, LOOP_STATE_COUNT}" "online c" "\<not> reset c" "set_publish c" "dump_logs c"
  shows "\<exists>c'. update_state env c h = Some (c', h) \<and> loop_state c' = LOGDUMP \<and> \<not> set_publish c' \<and> \<not> dump_logs c'"
  using assms by (simp add: update_state_Some) (simp add: apply_defs)

definition online_ctx :: "loop_state \<Rightarrow> app_ctx" where
  "online_ctx s = zero_ctx\<lparr>loop_state := s, flash_initd := True, flash_written := True, wifi_configd := True,
     mqtt_initd := True, sense_initd := True, ntp_syncd := True\<rparr>"

theorem dump_swallows_publish_witness:
  "\<exists>c'. update_state (log_env_at 0) ((online_ctx THROTTLE)\<lparr>set_publish := True, dump_logs := True\<rparr>) empty_heap =
     Some (c', empty_heap) \<and> loop_state c' = LOGDUMP \<and> \<not> set_publish c' \<and> \<not> dump_logs c'"
  by (rule dump_swallows_publish) (simp_all add: online_ctx_def online_def zero_ctx_def)

lemma free_slots_None_iff:
  "free_slots slots h = None \<longleftrightarrow>
     \<not> distinct (filter (\<lambda>s. s \<noteq> None) slots) \<or> (\<exists>p. Some p \<in> set slots \<and> blocks h p = None)"
proof (induction slots arbitrary: h)
  case (Cons s slots)
  show ?case
  proof (cases s)
    case None
    with Cons show ?thesis by simp
  next
    case (Some p)
    show ?thesis
    proof (cases "blocks h p")
      case None
      with Some show ?thesis by (auto simp: heap_free_def)
    next
      case b: (Some b)
      with Some Cons[of "h\<lparr>blocks := (blocks h)(p := None)\<rparr>"] show ?thesis
        by (auto simp: heap_free_def)
    qed
  qed
qed simp

text \<open>
  The transition function has defined behaviour except in one situation: at the log dump
  with a slot that points to no live block (or that occurs twice).
\<close>

theorem update_undefined_iff:
  assumes "loop_state c \<noteq> LOOP_STATE_COUNT"
  shows "update_state env c h = None \<longleftrightarrow> loop_state c = LOGDUMP \<and>
    (\<not> distinct (filter (\<lambda>s. s \<noteq> None) (logdump c)) \<or> (\<exists>p. Some p \<in> set (logdump c) \<and> blocks h p = None))"
  using update_state_None_iff[OF assms] free_slots_None_iff by (simp add: free_logs_def)

theorem update_undefined_iff_witness:
  "update_state (log_env_at 0) (full_log_ctx\<lparr>loop_state := LOGDUMP\<rparr>) full_log_heap \<noteq> None \<and>
   update_state (log_env_at 0) (full_log_ctx\<lparr>loop_state := LOGDUMP\<rparr>) empty_heap = None"
proof -
  let ?c = "full_log_ctx\<lparr>loop_state := LOGDUMP\<rparr>"
  have l: "loop_state ?c \<noteq> LOOP_STATE_COUNT" "loop_state ?c = LOGDUMP" "logdump ?c = logdump full_log_ctx" by simp_all
  have "Some 0 \<in> set (logdump full_log_ctx)" by (simp add: full_log_ctx_def)
  then have e: "\<exists>p. Some p \<in> set (logdump full_log_ctx) \<and> blocks empty_heap p = None"
    by (intro exI[of _ 0]) (simp add: empty_heap_def)
  have "distinct (filter (\<lambda>s. s \<noteq> None) (logdump full_log_ctx))"
    "\<nexists>p. Some p \<in> set (logdump full_log_ctx) \<and> blocks full_log_heap p = None"
    using full_log_inv by (auto simp: log_inv_def)
  with e show ?thesis unfolding update_undefined_iff[OF l(1)] l(2,3) by blast
qed
end
