(* ===== verification/Connect.thy ===== *)
theory Connect
  imports Util B64 State_Machine
begin

text \<open>
  Model of \<open>src/connect/connect.c\<close>: the MQTT client. It connects to Wi-Fi and the broker,
  provisions the device with its token, publishes sensor readings and dumps the log. The
  JSON payloads are built in C buffers whose sizes the model keeps. lwIP's MQTT client and
  the Wi-Fi driver are parameters; the calls made to them are listed in order.
\<close>

named_theorems mqtt_simps \<open>payloads and published messages\<close>

definition TOPIC_BREADCRUMB :: string where "TOPIC_BREADCRUMB = ''dirtie-breadcrumb''"
definition TOPIC_LOGDUMP :: string where "TOPIC_LOGDUMP = ''dirtie-logdump''"
definition TOPIC_PROVISION :: string where "TOPIC_PROVISION = ''dirtie-provision''"

abbreviation QUOTE :: char where "QUOTE \<equiv> CHR 0x22"
abbreviation NL :: char where "NL \<equiv> CHR 0x0A"

datatype mqtt_call =
    Mqtt_client_connect u32 "u8 list"  \<comment> \<open>address, client id\<close>
  | Mqtt_set_inpub
  | Mqtt_publish string string  \<comment> \<open>topic, message\<close>
  | Mqtt_subscribe string

text \<open>
  The parameters of one handler call: the device address (six bytes, any of which may be zero), allocator results and the
  contents of fresh memory, the answers of the network stack, and the environments of the
  calls into the logger and the base64 encoder.
\<close>

record mqtt_env =
  dev_mac :: "u8 list"
  fresh_bytes :: "nat \<Rightarrow> string"
  payload_malloc :: bool
  array_calloc :: bool
  client_calloc :: bool
  client_new :: bool
  wifi_connect :: "string \<Rightarrow> string \<Rightarrow> int"
  ip4addr_aton :: "string \<Rightarrow> u32 option"
  connect_err :: "u32 \<Rightarrow> u8 list \<Rightarrow> lwip_err"
  publish_err :: "string \<Rightarrow> string \<Rightarrow> lwip_err"
  conn_log :: "nat \<Rightarrow> log_env"
  enc_env :: "nat \<Rightarrow> b64_env"
  epoch_ms :: u64
  hw_ms :: u64

text \<open>What the hardware and the C library promise of them.\<close>

definition mqtt_env_ok :: "mqtt_env \<Rightarrow> bool" where
  "mqtt_env_ok env \<longleftrightarrow> length (dev_mac env) = 6 \<and> (\<forall>n. length (fresh_bytes env n) = n)"

section \<open>Incoming messages\<close>

text \<open>The three globals of the file: a buffer, its fill level in a byte, the bytes expected.\<close>

record inpub =
  in_buffer :: string
  data_len :: u8
  data_in :: u32

definition inpub_start :: inpub where
  "inpub_start = \<lparr>in_buffer = replicate 1025 NUL, data_len = 0, data_in = 0\<rparr>"

definition mqtt_pub_start_cb :: "inpub \<Rightarrow> u32 \<Rightarrow> inpub" where
  "mqtt_pub_start_cb g tot_len =
     (if tot_len > 1024 then g else g\<lparr>data_in := tot_len, data_len := 0\<rparr>)"

text \<open>The second component is the message printed, when the last fragment has arrived.\<close>

definition mqtt_pub_data_cb :: "inpub \<Rightarrow> string \<Rightarrow> (inpub \<times> string option) option" where
  "mqtt_pub_data_cb g data =
     (if data_in g > 0
      then do {
        let left = data_in g - of_nat (length data);
        buf1 \<leftarrow> blit (in_buffer g) (unat (data_len g)) data;
        let dl = data_len g + of_nat (length data);
        let g1 = \<lparr>in_buffer = buf1, data_len = dl, data_in = left\<rparr>;
        if left = 0
        then do {
          buf2 \<leftarrow> wr buf1 (unat dl) NUL;
          printed \<leftarrow> c_str buf2;
          Some (g1\<lparr>in_buffer := buf2\<rparr>, Some printed)
        }
        else Some (g1, None)
      }
      else Some (g, None))"

fun mqtt_pub_data :: "inpub \<Rightarrow> string list \<Rightarrow> (inpub \<times> string option) option" where
  "mqtt_pub_data g [] = Some (g, None)"
| "mqtt_pub_data g [d] = mqtt_pub_data_cb g d"
| "mqtt_pub_data g (d # ds) = do { (g', _) \<leftarrow> mqtt_pub_data_cb g d; mqtt_pub_data g' ds }"

section \<open>The client\<close>

definition mqtt_client_init :: "mqtt_env \<Rightarrow> mqtt_client_t option" where
  "mqtt_client_init env =
     (if \<not> client_calloc env then None
      else Some \<lparr>remote_addr = 0, lwip_client = False, received = 0, counter = 0, reconnect = 0\<rparr>)"

definition mqtt_pub_request_cb :: "mqtt_client_t \<Rightarrow> mqtt_client_t" where
  "mqtt_pub_request_cb st = st\<lparr>received := received st + 1\<rparr>"

text \<open>
  The client id handed to lwIP is documented as a C string and the code passes the array with the
  six address bytes: the id is what is before the first zero byte, and without one in the
  address lwIP reads past the array (\<open>None\<close>).
\<close>

definition client_id :: "u8 list \<Rightarrow> u8 list option" where
  "client_id mac = (if 0 \<in> set mac then Some (takeWhile (\<lambda>b. b \<noteq> 0) mac) else None)"

definition mqtt_connect :: "mqtt_env \<Rightarrow> mqtt_client_t \<Rightarrow> (dt_err \<times> mqtt_call list) option" where
  "mqtt_connect env st = do {
     cid \<leftarrow> client_id (dev_mac env);
     let calls = [Mqtt_client_connect (remote_addr st) cid];
     Some (if connect_err env (remote_addr st) cid \<noteq> ERR_OK then (DT_ERR_LWIPERR, calls) else (DT_ERR_OK, calls))
   }"

text \<open>\<open>strncpy(dst, src, n)\<close> into an array of \<open>n\<close> chars, from the object \<open>src\<close>.\<close>

definition c_strncpy :: "nat \<Rightarrow> string \<Rightarrow> string option" where
  "c_strncpy n src =
     (if NUL \<in> set (take n src)
      then (let s = takeWhile (\<lambda>c. c \<noteq> NUL) src in Some (s @ replicate (n - length s) NUL))
      else if n \<le> length src then Some (take n src) else None)"

definition publish ::
  "mqtt_env \<Rightarrow> mqtt_client_t option \<Rightarrow> string \<Rightarrow> string \<Rightarrow> (dt_err \<times> mqtt_call list) option" where
  "publish env state topic message = do {
     msgbuf \<leftarrow> c_strncpy 128 message;
     st \<leftarrow> state;
     msg \<leftarrow> c_str msgbuf;
     require (lwip_client st);
     let calls = [Mqtt_publish topic msg];
     Some (if publish_err env topic msg \<noteq> ERR_OK then (DT_ERR_LWIPERR, calls) else (DT_ERR_OK, calls))
   }"

section \<open>The payloads\<close>

text \<open>The six address bytes through \<open>%02x\<close>, separated by colons.\<close>

definition mac_text :: "u8 list \<Rightarrow> string" where
  "mac_text mac = hex2 (mac ! 0) @ '':'' @ hex2 (mac ! 1) @ '':'' @ hex2 (mac ! 2) @ '':'' @
     hex2 (mac ! 3) @ '':'' @ hex2 (mac ! 4) @ '':'' @ hex2 (mac ! 5)"

definition json_key :: "string \<Rightarrow> string" where
  "json_key k = [QUOTE] @ k @ [QUOTE, CHR '':'']"

definition json_str :: "string \<Rightarrow> string" where
  "json_str v = [QUOTE] @ v @ [QUOTE]"

definition json_head :: "u8 list \<Rightarrow> string \<Rightarrow> string" where
  "json_head mac token = ''{'' @ json_key ''macAddr'' @ json_str (mac_text mac) @ '','' @
     json_key ''contract'' @ json_str token"

definition provision_json :: "u8 list \<Rightarrow> string \<Rightarrow> string" where
  "provision_json mac token = json_head mac token @ ''}''"

definition breadcrumb_json :: "u8 list \<Rightarrow> string \<Rightarrow> u16 \<Rightarrow> u16 \<Rightarrow> string" where
  "breadcrumb_json mac token cap temp =
     json_head mac token @ '','' @ json_key ''capacitance'' @ json_str (dec_int (uint cap)) @ '','' @
     json_key ''temperature'' @ json_str (dec_int (uint temp)) @ ''}''"

definition logdump_json :: "u8 list \<Rightarrow> string \<Rightarrow> string \<Rightarrow> string" where
  "logdump_json mac token arr = json_head mac token @ '','' @ json_key ''logdump'' @ arr @ ''}''"

definition provision :: "mqtt_env \<Rightarrow> app_ctx \<Rightarrow> (dt_err \<times> mqtt_call list) option" where
  "provision env ctx = do {
     token \<leftarrow> c_str (prv_token ctx);
     if \<not> payload_malloc env then Some (DT_ERR_MALLOC, [])
     else do {
       payload \<leftarrow> c_snprintf (fresh_bytes env (45 + length token + 1)) 0 (45 + length token)
                    (provision_json (dev_mac env) token);
       publish env (mqtt_client ctx) TOPIC_PROVISION payload
     }
   }"

definition breadcrumb :: "mqtt_env \<Rightarrow> app_ctx \<Rightarrow> (dt_err \<times> mqtt_call list) option" where
  "breadcrumb env ctx = do {
     token \<leftarrow> c_str (prv_token ctx);
     let text = breadcrumb_json (dev_mac env) token (capacitance ctx) (temperature ctx);
     let len = length text;
     if \<not> payload_malloc env then Some (DT_ERR_MALLOC, [])
     else do {
       payload \<leftarrow> c_snprintf (fresh_bytes env len) 0 len text;
       publish env (mqtt_client ctx) TOPIC_BREADCRUMB payload
     }
   }"

section \<open>The log dump\<close>

definition numlogs :: nat where "numlogs = 16"
definition max_base64_log_len :: nat where "max_base64_log_len = ((MAX_LOG_LEN + 2) div 3) * 4 + 1"
definition json_chars :: nat where "json_chars = numlogs * 4 + (numlogs - 1) + 2"
definition logarrsize :: nat where "logarrsize = max_base64_log_len * numlogs + json_chars"

lemmas logarr_consts = numlogs_def max_base64_log_len_def json_chars_def MAX_LOG_LEN_def

definition char_bytes :: "string \<Rightarrow> u8 list" where
  "char_bytes = map of_char"

text \<open>\<open>pos += snprintf(logarray + pos, logarrsize - pos, s)\<close>, which returns the full length.\<close>

definition arr_put :: "string \<times> nat \<Rightarrow> string \<Rightarrow> (string \<times> nat) option" where
  "arr_put ap s = do {
     let (arr, pos) = ap;
     require (pos \<le> logarrsize);
     arr' \<leftarrow> c_snprintf arr pos (logarrsize - pos) s;
     Some (arr', pos + length s)
   }"

text \<open>
  The loop over the log slots from index \<open>i\<close> on. \<open>Inl\<close> is the jump to \<open>cleanup\<close>; the
  blocks of the log are rewritten in place.
\<close>

fun logdump_loop ::
  "mqtt_env \<Rightarrow> u64 \<Rightarrow> u64 \<Rightarrow> nat \<Rightarrow> ptr option list \<Rightarrow> heap \<Rightarrow> string \<times> nat \<Rightarrow>
   (heap \<times> (dt_err + string \<times> nat)) option" where
  "logdump_loop env now hwnow i [] h ap = Some (h, Inr ap)"
| "logdump_loop env now hwnow i (None # slots) h ap = Some (h, Inr ap)"
| "logdump_loop env now hwnow i (Some p # slots) h ap = do {
     blk \<leftarrow> heap_load p h;
     blk' \<leftarrow> log_transform_ts blk now hwnow;
     h1 \<leftarrow> heap_store p blk' h;
     ap1 \<leftarrow> (if i > 0 then arr_put ap '','' else Some ap);
     (arr2, pos2) \<leftarrow> arr_put ap1 [QUOTE];
     line \<leftarrow> c_str blk';
     (err_b64, arr3) \<leftarrow> b64_encode (enc_env env i) arr2 pos2 (char_bytes line);
     if err_b64 \<noteq> DT_ERR_OK then Some (h1, Inl err_b64)
     else do {
       enc \<leftarrow> c_str (drop pos2 arr3);
       ap4 \<leftarrow> arr_put (arr3, pos2 + length enc) [QUOTE];
       logdump_loop env now hwnow (i + 1) slots h1 ap4
     }
   }"

text \<open>
  The jumps to \<open>cleanup\<close> before \<open>payload\<close> is assigned free an uninitialised pointer, which
  is undefined behaviour; only the failed allocation of \<open>payload\<close> itself returns its error.
\<close>

definition logdump_fn ::
  "mqtt_env \<Rightarrow> app_ctx \<Rightarrow> heap \<Rightarrow> (dt_err \<times> heap \<times> mqtt_call list) option" where
  "logdump_fn env ctx h =
     (case get_current_epoch ctx (epoch_ms env) of
        (DT_ERR_OK, Some now) \<Rightarrow>
          (if \<not> array_calloc env then None
           else do {
             ap0 \<leftarrow> arr_put (replicate logarrsize NUL, 0) ''['';
             (h1, r) \<leftarrow> logdump_loop env now (hw_ms env) 0 (take numlogs (logdump ctx)) h ap0;
             (case r of
                Inl e \<Rightarrow> None
              | Inr ap \<Rightarrow> do {
                  (arr, _) \<leftarrow> arr_put ap '']'';
                  token \<leftarrow> c_str (prv_token ctx);
                  logs \<leftarrow> c_str arr;
                  let text = logdump_json (dev_mac env) token logs;
                  let len = length text;
                  if \<not> payload_malloc env then Some (DT_ERR_MALLOC, h1, [])
                  else do {
                    payload \<leftarrow> c_snprintf (fresh_bytes env (len + 1)) 0 (len + 1) text;
                    h2 \<leftarrow> free_logs ctx h1;
                    (err, calls) \<leftarrow> publish env (mqtt_client ctx) TOPIC_LOGDUMP payload;
                    Some (err, h2, calls)
                  }
                })
           })
      | _ \<Rightarrow> None)"

section \<open>The handlers\<close>

definition mqtt_publish_handler :: "mqtt_env \<Rightarrow> app_ctx \<Rightarrow> (dt_err \<times> mqtt_call list) option" where
  "mqtt_publish_handler env ctx = breadcrumb env ctx"

definition logdump_handler ::
  "mqtt_env \<Rightarrow> app_ctx \<Rightarrow> heap \<Rightarrow> (dt_err \<times> heap \<times> mqtt_call list) option" where
  "logdump_handler env ctx h = do {
     slot \<leftarrow> rd (logdump ctx) 0;
     if slot = None then Some (DT_ERR_OK, h, []) else logdump_fn env ctx h
   }"

definition mqtt_listen_handler :: "app_ctx \<Rightarrow> dt_err \<times> app_ctx" where
  "mqtt_listen_handler ctx = (DT_ERR_OK, ctx)"

text \<open>A log call followed by a return.\<close>

definition log_return ::
  "log_env \<Rightarrow> app_ctx \<Rightarrow> heap \<Rightarrow> string \<Rightarrow> int \<Rightarrow> mqtt_call list \<Rightarrow>
   (int \<times> app_ctx \<times> heap \<times> mqtt_call list) option" where
  "log_return lenv ctx h msg ret calls = do {
     (_, ctx', h') \<leftarrow> dlog lenv ctx h LOG_INFO msg;
     Some (ret, ctx', h', calls)
   }"

text \<open>The last part of \<open>mqtt_init_handler\<close>, once the client exists.\<close>

definition mqtt_init_finish ::
  "mqtt_env \<Rightarrow> app_ctx \<Rightarrow> heap \<Rightarrow> mqtt_call list \<Rightarrow> (int \<times> app_ctx \<times> heap \<times> mqtt_call list) option" where
  "mqtt_init_finish env ctx h calls = do {
     t0 \<leftarrow> rd (prv_token ctx) 0;
     (err, calls') \<leftarrow> (if t0 \<noteq> NUL then provision env ctx else Some (DT_ERR_OK, []));
     if err \<noteq> DT_ERR_OK
     then log_return (conn_log env 2) ctx h (''Failed to provision device'' @ [NL]) (err_code err) (calls @ calls')
     else Some (err_code DT_ERR_OK, ctx\<lparr>mqtt_initd := True\<rparr>, h, calls @ calls')
   }"

definition mqtt_init_handler ::
  "mqtt_env \<Rightarrow> app_ctx \<Rightarrow> heap \<Rightarrow> (int \<times> app_ctx \<times> heap \<times> mqtt_call list) option" where
  "mqtt_init_handler env ctx h =
     (if \<not> wifi_configd ctx
      then log_return (conn_log env 0) ctx h (''wifi credentials not yet configured'' @ [NL]) 1 []
      else do {
        ssid \<leftarrow> c_str (wifi_ssid ctx);
        (_, ctx1, h1) \<leftarrow> dlog (conn_log env 0) ctx h LOG_INFO (''connecting to '' @ ssid @ [NL]);
        pass \<leftarrow> c_str (wifi_pass ctx1);
        if wifi_connect env ssid pass \<noteq> 0
        then log_return (conn_log env 1) ctx1 h1 (''failed to connect.'' @ [NL]) 1 []
        else do {
          (_, ctx2, h2) \<leftarrow> dlog (conn_log env 1) ctx1 h1 LOG_INFO (''Connected.'' @ [NL]);
          st \<leftarrow> mqtt_client_init env;
          let ctx3 = ctx2\<lparr>mqtt_client := Some st\<rparr>;
          hub \<leftarrow> c_str (hub_loc ctx3);
          (case ip4addr_aton env hub of
             None \<Rightarrow> log_return (conn_log env 2) ctx3 h2 (''Invalid IP String '' @ hub @ '', exiting'' @ [NL]) 1 []
           | Some a \<Rightarrow>
               (let st1 = st\<lparr>remote_addr := a, lwip_client := client_new env, counter := 0\<rparr>;
                    ctx4 = ctx3\<lparr>mqtt_client := Some st1\<rparr>
                in if \<not> client_new env
                   then log_return (conn_log env 2) ctx4 h2 (''Failed to create MQTT client'' @ [NL]) 1 []
                   else do {
                     (err, calls) \<leftarrow> mqtt_connect env st1;
                     mqtt_init_finish env ctx4 h2
                       (if err = DT_ERR_OK then calls @ [Mqtt_set_inpub] else calls)
                   }))
        }
      })"

section \<open>The client id\<close>

lemma mqtt_connect_defined:
  "0 \<in> set (dev_mac env) \<Longrightarrow>
   \<exists>e. mqtt_connect env st = Some (e, [Mqtt_client_connect (remote_addr st) (takeWhile (\<lambda>b. b \<noteq> 0) (dev_mac env))])"
  by (simp add: mqtt_connect_def client_id_def Let_def)

lemma mqtt_connect_undefined: "0 \<notin> set (dev_mac env) \<Longrightarrow> mqtt_connect env st = None"
  by (simp add: mqtt_connect_def client_id_def)

section \<open>Fragments of an incoming message\<close>

text \<open>
  Reference for the arrival of a message in fragments \<open>ds\<close>, \<open>s\<close> bytes of it being in: a fragment
  is stored at the number of bytes before it modulo 256, since the fill level is a byte.
\<close>

fun arrive :: "nat \<Rightarrow> string \<Rightarrow> string list \<Rightarrow> string" where
  "arrive s buf [] = buf"
| "arrive s buf (d # ds) =
     arrive (s + length d) (take (s mod 256) buf @ d @ drop (s mod 256 + length d) buf) ds"

lemma arrive_short:
  "s + length (concat ds) \<le> 255 \<Longrightarrow> s + length (concat ds) \<le> length buf \<Longrightarrow>
   take (s + length (concat ds)) (arrive s buf ds) = take s buf @ concat ds"
proof (induction ds arbitrary: s buf)
  case (Cons d ds)
  have "s mod 256 = s" using Cons.prems(1) by simp
  with Cons.IH[of "s + length d" "take s buf @ d @ drop (s + length d) buf"] Cons.prems show ?case
    by (simp add: add.assoc)
qed simp

lemma c_str_first_NUL: "c_str (xs @ NUL # r) = Some (takeWhile (\<lambda>c. c \<noteq> NUL) xs)"
  by (induction xs) auto

lemma unat_sub_of_nat: "k \<le> unat w \<Longrightarrow> unat (w - of_nat k) = unat w - k" for w :: u32
proof -
  assume k: "k \<le> unat w"
  then have "unat (of_nat k :: u32) = k"
    using unat_u32_lt[of w] by (simp add: unsigned_of_nat take_bit_nat_eq_self)
  with k show ?thesis by (simp add: unat_sub word_le_nat_alt)
qed

text \<open>One fragment, and all of them: the buffer is the reference's, the text is what it holds.\<close>

lemma pub_data_step:
  assumes "length (in_buffer g) = 1025" "unat (data_len g) = s mod 256"
    and "length d + rest = unat (data_in g)" "d \<noteq> []" "s + length d \<le> 1024"
  defines "buf \<equiv> take (s mod 256) (in_buffer g) @ d @ drop (s mod 256 + length d) (in_buffer g)"
  shows "\<exists>g'. mqtt_pub_data_cb g d =
      Some (g', if rest = 0 then Some (takeWhile (\<lambda>c. c \<noteq> NUL) (take ((s + length d) mod 256) buf)) else None) \<and>
    (rest \<noteq> 0 \<longrightarrow> in_buffer g' = buf) \<and> length buf = 1025 \<and>
    unat (data_len g') = (s + length d) mod 256 \<and> unat (data_in g') = rest"
proof -
  let ?k = "(s + length d) mod 256"
  have "s mod 256 + length d \<le> 1024" using assms(5) mod_less_eq_dividend[of s 256] by linarith
  then have b: "blit (in_buffer g) (unat (data_len g)) d = Some buf"
    using assms(1,2) by (simp add: blit_def buf_def)
  have l: "length buf = 1025" using blit_length[OF b] assms(1) by simp
  have dl: "unat (data_len g + of_nat (length d)) = ?k"
    using assms(2) by (simp add: unat_word_ariths unsigned_of_nat take_bit_eq_mod mod_simps)
  have left: "unat (data_in g - of_nat (length d)) = rest"
    using assms(3) unat_sub_of_nat[of "length d" "data_in g"] by simp
  have pos: "data_in g > 0" using assms(3,4) by (cases d) (simp_all add: word_less_nat_alt)
  have z: "data_in g - of_nat (length d) = 0 \<longleftrightarrow> rest = 0" using left by (metis unat_eq_zero)
  have k: "?k < length buf" using l by (simp add: less_le_trans[OF mod_less_divisor])
  then have "buf[?k := NUL] = take ?k buf @ NUL # drop (Suc ?k) buf" by (rule upd_conv_take_nth_drop)
  with k have w: "wr buf (unat (data_len g + of_nat (length d))) NUL = Some (take ?k buf @ NUL # drop (Suc ?k) buf)"
    by (simp add: dl wr_def)
  show ?thesis
    using pos b z w l left dl by (cases "rest = 0") (simp_all add: mqtt_pub_data_cb_def c_str_first_NUL)
qed

lemma mqtt_pub_data_all:
  assumes "ds \<noteq> []" "\<forall>d \<in> set ds. d \<noteq> []"
    and "length (in_buffer g) = 1025" "unat (data_len g) = s mod 256"
    and "unat (data_in g) = length (concat ds)" "s + length (concat ds) \<le> 1024"
  shows "\<exists>g'. mqtt_pub_data g ds =
    Some (g', Some (takeWhile (\<lambda>c. c \<noteq> NUL)
      (take ((s + length (concat ds)) mod 256) (arrive s (in_buffer g) ds))))"
  using assms
proof (induction ds arbitrary: g s rule: list_nonempty_induct)
  case (single d)
  then show ?case using pub_data_step[of g s d 0] by auto
next
  case (cons d ds)
  from cons.prems have "length d + length (concat ds) = unat (data_in g)" "d \<noteq> []" "s + length d \<le> 1024"
    by auto
  from pub_data_step[OF cons.prems(2,3) this] cons.hyps cons.prems(1) obtain g' where
    g': "mqtt_pub_data_cb g d = Some (g', None)" "length (in_buffer g') = 1025"
      "unat (data_len g') = (s + length d) mod 256" "unat (data_in g') = length (concat ds)"
      "in_buffer g' = take (s mod 256) (in_buffer g) @ d @ drop (s mod 256 + length d) (in_buffer g)"
    by (cases ds) auto
  have "s + length d + length (concat ds) \<le> 1024" using cons.prems(5) by simp
  with cons.IH[OF _ g'(2,3,4)] cons.prems(1) g'(1,5) cons.hyps show ?case by (cases ds) (auto simp: add.assoc)
qed

lemma pub_message:
  assumes "ds \<noteq> []" "\<forall>d \<in> set ds. d \<noteq> []" "length (concat ds) \<le> 1024" "length (in_buffer g) = 1025"
  shows "\<exists>g'. mqtt_pub_data (mqtt_pub_start_cb g (of_nat (length (concat ds)))) ds =
    Some (g', Some (takeWhile (\<lambda>c. c \<noteq> NUL) (take (length (concat ds) mod 256) (arrive 0 (in_buffer g) ds))))"
proof -
  let ?n = "length (concat ds)"
  have n: "unat (of_nat ?n :: u32) = ?n" using assms(3) by (simp add: unsigned_of_nat take_bit_nat_eq_self)
  then have "mqtt_pub_start_cb g (of_nat ?n) = g\<lparr>data_in := of_nat ?n, data_len := 0\<rparr>"
    using assms(3) by (simp add: mqtt_pub_start_cb_def word_less_nat_alt)
  with mqtt_pub_data_all[OF assms(1,2), of "g\<lparr>data_in := of_nat ?n, data_len := 0\<rparr>" 0] assms(3,4) n
  show ?thesis by simp
qed

section \<open>Publishing\<close>

lemma c_strncpy_cstring:
  assumes "is_cstring m"
  shows "c_strncpy n (m @ NUL # r) =
    (if length m < n then Some (m @ replicate (n - length m) NUL) else Some (take n m))"
proof -
  have t: "takeWhile (\<lambda>c. c \<noteq> NUL) (m @ NUL # r) = m"
    using assms by (induction m) auto
  have "NUL \<in> set (take n (m @ NUL # r)) \<longleftrightarrow> length m < n"
    using assms by (cases "n - length m") (auto simp: is_cstring_def dest: in_set_takeD)
  with t show ?thesis by (simp add: c_strncpy_def)
qed

lemma publish_cstring:
  assumes "is_cstring m"
  shows "publish env (Some st) topic (m @ NUL # r) =
    (if length m < 128 \<and> lwip_client st
     then Some (if publish_err env topic m \<noteq> ERR_OK then DT_ERR_LWIPERR else DT_ERR_OK, [Mqtt_publish topic m])
     else None)"
proof (cases "length m < 128")
  case True
  then have "c_str (m @ replicate (128 - length m) NUL) = Some m"
    using assms by (cases "128 - length m") (auto simp: c_str_append)
  with True show ?thesis by (simp add: publish_def c_strncpy_cstring[OF assms] require_def Let_def)
next
  case False
  have "c_str (take 128 m) = None" using assms by (auto simp: c_str_None_iff is_cstring_def dest: in_set_takeD)
  with False show ?thesis by (simp add: publish_def c_strncpy_cstring[OF assms])
qed

lemma publish_no_client: "publish env None topic m = None"
  by (simp add: publish_def bind_eq_None_conv split: option.splits)

section \<open>Payloads\<close>

lemma hex2_cstring [mqtt_simps]: "is_cstring (hex2 b)" "length (hex2 b) = 2"
proof -
  have "hex_digit d \<noteq> NUL" if "d < 16" for d
    using that by (auto simp: hex_digit_def char_of_eq_iff take_bit_nat_eq_self)
  moreover have "unat b div 16 < 16" using unat_u8_lt[of b] by auto
  ultimately show "is_cstring (hex2 b)" by (simp add: hex2_def)
qed (simp add: hex2_def)

lemma mac_text_cstring [mqtt_simps]: "is_cstring (mac_text mac)" "length (mac_text mac) = 17"
  by (simp_all add: mac_text_def mqtt_simps)

lemma json_head_cstring [mqtt_simps]:
  "is_cstring token \<Longrightarrow> is_cstring (json_head mac token)" "length (json_head mac token) = 44 + length token"
  by (simp_all add: json_head_def json_key_def json_str_def mqtt_simps)

lemma dec_int_cstring [mqtt_simps]: "is_cstring (dec_int i)"
  using is_cstring_digits[OF dec_digits] by (simp add: dec_int_def)

lemma snprintf_fits:
  assumes "length buf \<ge> n" "0 < n" "n \<le> length s + 1"
  shows "c_snprintf buf 0 n s = Some (take (n - 1) s @ NUL # drop n buf)"
  using assms by (simp add: c_snprintf_def c_strcpy_def blit_0)

text \<open>
  The provisioning message is its JSON text without the closing brace: the size given to
  \<open>snprintf\<close> leaves no room for it.
\<close>

lemma provision_sends:
  assumes "mqtt_env_ok env" "payload_malloc env" "c_str (prv_token ctx) = Some token" "length token < 64"
    and "mqtt_client ctx = Some st" "lwip_client st"
  shows "provision env ctx =
    (let m = json_head (dev_mac env) token
     in Some (if publish_err env TOPIC_PROVISION m \<noteq> ERR_OK then DT_ERR_LWIPERR else DT_ERR_OK,
              [Mqtt_publish TOPIC_PROVISION m]))"
proof -
  let ?h = "json_head (dev_mac env) token"
  have cs: "is_cstring token" using c_str_Some[OF assms(3)] by simp
  have "c_snprintf (fresh_bytes env (45 + length token + 1)) 0 (45 + length token) (provision_json (dev_mac env) token)
      = Some (?h @ NUL # drop (45 + length token) (fresh_bytes env (45 + length token + 1)))"
    using assms(1) by (subst snprintf_fits) (simp_all add: mqtt_env_ok_def provision_json_def mqtt_simps)
  then show ?thesis
    using assms(2-6) cs publish_cstring[of ?h env st TOPIC_PROVISION]
    by (simp add: provision_def mqtt_simps Let_def)
qed

text \<open>The sensor message likewise, and only while it is shorter than the message buffer.\<close>

definition breadcrumb_body :: "u8 list \<Rightarrow> string \<Rightarrow> u16 \<Rightarrow> u16 \<Rightarrow> string" where
  "breadcrumb_body mac token cap temp =
     json_head mac token @ '','' @ json_key ''capacitance'' @ json_str (dec (unat cap)) @ '','' @
     json_key ''temperature'' @ json_str (dec (unat temp))"

lemma breadcrumb_json_body: "breadcrumb_json mac token cap temp = breadcrumb_body mac token cap temp @ ''}''"
  by (simp add: breadcrumb_json_def breadcrumb_body_def dec_int_def)

lemma breadcrumb_body_length:
  "length (breadcrumb_body mac token cap temp) = 78 + length token + length (dec (unat cap)) + length (dec (unat temp))"
  by (simp add: breadcrumb_body_def json_key_def json_str_def mqtt_simps)

lemma breadcrumb_sends:
  assumes "mqtt_env_ok env" "payload_malloc env" "c_str (prv_token ctx) = Some token"
    and "mqtt_client ctx = Some st" "lwip_client st"
  shows "breadcrumb env ctx =
    (let m = breadcrumb_body (dev_mac env) token (capacitance ctx) (temperature ctx)
     in if length m < 128
        then Some (if publish_err env TOPIC_BREADCRUMB m \<noteq> ERR_OK then DT_ERR_LWIPERR else DT_ERR_OK,
                   [Mqtt_publish TOPIC_BREADCRUMB m])
        else None)"
proof -
  let ?m = "breadcrumb_body (dev_mac env) token (capacitance ctx) (temperature ctx)"
  let ?n = "length ?m + 1"
  have cs: "is_cstring token" using c_str_Some[OF assms(3)] by simp
  then have m: "is_cstring ?m"
    using is_cstring_digits[OF dec_digits] by (simp add: breadcrumb_body_def json_key_def json_str_def mqtt_simps)
  have "c_snprintf (fresh_bytes env ?n) 0 ?n (?m @ ''}'') = Some (?m @ NUL # drop ?n (fresh_bytes env ?n))"
    using assms(1) by (subst snprintf_fits) (simp_all add: mqtt_env_ok_def)
  then show ?thesis
    using assms(2-5) publish_cstring[OF m, of env st TOPIC_BREADCRUMB]
    by (simp add: breadcrumb_def breadcrumb_json_body Let_def)
qed

section \<open>The dumped array\<close>

text \<open>The array elements for the lines from the i-th on.\<close>

fun dump_items :: "nat \<Rightarrow> string list \<Rightarrow> string" where
  "dump_items i [] = []"
| "dump_items i (l # ls) =
     (if i > 0 then '','' else []) @ json_str (b64_spec (char_bytes l)) @ dump_items (i + 1) ls"

lemma arr_put_text:
  assumes "length T + length (NUL # r) = logarrsize" "length s \<le> length r" "is_cstring s"
  shows "arr_put (T @ NUL # r, length T) s = Some ((T @ s) @ NUL # drop (length s) r, length (T @ s))"
proof -
  have "c_strcpy (T @ NUL # r) (length T) s = Some (T @ (s @ [NUL]) @ drop (length (s @ [NUL])) (NUL # r))"
    unfolding c_strcpy_def using assms(2) by (intro blit_append) auto
  moreover have "take (logarrsize - length T - 1) s = s" using assms(1,2) by simp
  ultimately show ?thesis using assms(1) by (simp add: arr_put_def c_snprintf_def)
qed

lemma encode_text:
  assumes "b64_env_ok env" "length (b64_spec src) \<le> length r"
  shows "b64_encode env (T @ NUL # r) (length T) src =
    Some (DT_ERR_OK, (T @ b64_spec src) @ NUL # drop (length (b64_spec src)) r)"
proof -
  have "c_strcpy (T @ NUL # r) (length T) (b64_spec src) =
      Some (T @ (b64_spec src @ [NUL]) @ drop (length (b64_spec src @ [NUL])) (NUL # r))"
    unfolding c_strcpy_def using assms(2) by (intro blit_append) auto
  then show ?thesis by (simp add: b64_encode_writes[OF assms(1)])
qed

text \<open>What the loop needs of a line: it is in the heap, and the rewritten block holds \<open>line\<close>.\<close>

definition dumpable :: "u64 \<Rightarrow> u64 \<Rightarrow> heap \<Rightarrow> (ptr \<Rightarrow> string) \<Rightarrow> ptr \<Rightarrow> bool" where
  "dumpable now hwnow h line p \<longleftrightarrow>
     (\<exists>blk blk'. blocks h p = Some blk \<and> log_transform_ts blk now hwnow = Some blk' \<and> c_str blk' = Some (line p))"

text \<open>One iteration of the loop on a line: separator, quotes and the encoded text go to the end of the array.\<close>

lemma logdump_loop_step:
  assumes "\<forall>k. b64_env_ok (enc_env env k)" "length T + length (NUL # r) = logarrsize"
    and p: "blocks h p = Some blk" "log_transform_ts blk now hwnow = Some blk'" "c_str blk' = Some l"
    and item: "item = (if i > 0 then '','' else []) @ json_str (b64_spec (char_bytes l))" "length item \<le> length r"
  shows "logdump_loop env now hwnow i (Some p # slots) h (T @ NUL # r, length T) =
    logdump_loop env now hwnow (i + 1) slots (h\<lparr>blocks := (blocks h)(p \<mapsto> blk')\<rparr>)
      ((T @ item) @ NUL # drop (length item) r, length (T @ item))"
proof -
  define e where "e = b64_spec (char_bytes l)"
  define sep where "sep = (if i > 0 then '','' else [])"
  have it: "item = sep @ [QUOTE] @ e @ [QUOTE]" by (simp add: item(1) e_def sep_def json_str_def)
  let ?T1 = "T @ sep" and ?T2 = "(T @ sep) @ [QUOTE]" and ?T3 = "((T @ sep) @ [QUOTE]) @ e"
  let ?r1 = "drop (length sep) r" and ?r2 = "drop (length sep + 1) r" and ?r3 = "drop (length sep + 1 + length e) r"
  have tot: "length T + length r + 1 = logarrsize" and len: "length sep + 2 + length e \<le> length r"
    using assms(2) item(2) by (simp_all add: it)
  have s1: "(if i > 0 then arr_put (T @ NUL # r, length T) '','' else Some (T @ NUL # r, length T)) =
      Some (?T1 @ NUL # ?r1, length ?T1)"
    using arr_put_text[of T r "'',''"] tot len by (auto simp: sep_def)
  have s2: "arr_put (?T1 @ NUL # ?r1, length ?T1) [QUOTE] = Some (?T2 @ NUL # ?r2, length ?T2)"
    using arr_put_text[of ?T1 ?r1 "[QUOTE]"] tot len by (auto simp: add.commute)
  have s3: "b64_encode (enc_env env i) (?T2 @ NUL # ?r2) (length ?T2) (char_bytes l) = Some (DT_ERR_OK, ?T3 @ NUL # ?r3)"
    using encode_text[of "enc_env env i" "char_bytes l" ?r2 ?T2] assms(1) len by (simp add: e_def add.commute)
  have s4: "c_str (drop (length ?T2) (?T3 @ NUL # ?r3)) = Some e"
    using c_str_terminated[OF is_cstring_b64_spec, of "char_bytes l" ?r3] by (simp add: e_def)
  have s5: "arr_put (?T3 @ NUL # ?r3, length ?T2 + length e) [QUOTE] =
      Some ((T @ item) @ NUL # drop (length item) r, length (T @ item))"
  proof -
    have e: "?T3 @ [QUOTE] = T @ item" "length ?T2 + length e = length ?T3" "drop (length [QUOTE]) ?r3 = drop (length item) r"
      by (simp_all add: it add.commute)
    have "length ?T3 + length (NUL # ?r3) = logarrsize" "length [QUOTE] \<le> length ?r3" using tot len by simp_all
    from arr_put_text[OF this] show ?thesis unfolding e by simp
  qed
  have h: "heap_store p blk' h = Some (h\<lparr>blocks := (blocks h)(p \<mapsto> blk')\<rparr>)" using p(1) by (simp add: heap_store_def)
  show ?thesis using p h s1 s2 s3 s4 s5 by (simp add: heap_load_def)
qed

lemma logdump_loop_items:
  assumes "\<forall>k. b64_env_ok (enc_env env k)" "distinct ps" "rest = [] \<or> hd rest = None"
    and "\<forall>p \<in> set ps. dumpable now hwnow h line p"
    and "length T + length (NUL # r) = logarrsize" "length (dump_items i (map line ps)) \<le> length r"
  shows "\<exists>h' r'. logdump_loop env now hwnow i (map Some ps @ rest) h (T @ NUL # r, length T) =
      Some (h', Inr ((T @ dump_items i (map line ps)) @ NUL # r', length (T @ dump_items i (map line ps)))) \<and>
    length r' = length r - length (dump_items i (map line ps)) \<and>
    next_ptr h' = next_ptr h \<and> dom (blocks h') = dom (blocks h)"
  using assms(2-)
proof (induction ps arbitrary: i h T r)
  case Nil
  then show ?case by (cases rest) auto
next
  case (Cons p ps)
  from Cons.prems(3) obtain blk blk' where p: "blocks h p = Some blk"
    "log_transform_ts blk now hwnow = Some blk'" "c_str blk' = Some (line p)"
    by (auto simp: dumpable_def)
  let ?h1 = "h\<lparr>blocks := (blocks h)(p \<mapsto> blk')\<rparr>"
  define item where "item = (if i > 0 then '','' else []) @ json_str (b64_spec (char_bytes (line p)))"
  let ?r1 = "drop (length item) r" and ?items = "dump_items (i + 1) (map line ps)"
  have it: "dump_items i (map line (p # ps)) = item @ ?items" by (simp add: item_def)
  have len: "length item + length ?items \<le> length r" using Cons.prems(5) unfolding it by simp
  note step = logdump_loop_step[OF assms(1) Cons.prems(4) p item_def, of "map Some ps @ rest"]
  have d: "\<forall>q \<in> set ps. dumpable now hwnow ?h1 line q"
    using Cons.prems(1,3) by (auto simp: dumpable_def)
  have "length (T @ item) + length (NUL # ?r1) = logarrsize" "length ?items \<le> length ?r1"
    using Cons.prems(4) len by simp_all
  moreover have "distinct ps" using Cons.prems(1) by simp
  ultimately obtain h' r' where
    "logdump_loop env now hwnow (i + 1) (map Some ps @ rest) ?h1 ((T @ item) @ NUL # ?r1, length (T @ item)) =
      Some (h', Inr (((T @ item) @ ?items) @ NUL # r', length ((T @ item) @ ?items)))"
    "length r' = length ?r1 - length ?items" "next_ptr h' = next_ptr ?h1" "dom (blocks h') = dom (blocks ?h1)"
    using Cons.IH[OF _ Cons.prems(2) d] by blast
  moreover have "dom (blocks ?h1) = dom (blocks h)" using p(1) by auto
  ultimately show ?case using step len unfolding it by (intro exI[of _ h'] exI[of _ r']) simp
qed

text \<open>The text of a whole dump, and its least length.\<close>

definition dump_array :: "string list \<Rightarrow> string" where
  "dump_array ls = ''['' @ dump_items 0 ls @ '']''"

lemma dump_items_bound:
  "\<forall>l \<in> set ls. length l \<le> 1023 \<Longrightarrow> length (dump_items i ls) \<le> 1367 * length ls"
proof (induction ls arbitrary: i)
  case (Cons l ls)
  have "length (b64_spec (char_bytes l)) \<le> 1364"
  proof -
    have "(length l + 2) div 3 \<le> (1023 + 2) div 3" using Cons.prems by (intro div_le_mono) simp
    then show ?thesis by (simp add: length_b64_spec char_bytes_def)
  qed
  with Cons.IH[of "i + 1"] Cons.prems show ?case by (auto simp: json_str_def)
qed simp

lemma dump_items_least:
  "\<forall>l \<in> set ls. 15 \<le> length l \<Longrightarrow> 23 * length ls \<le> length (dump_items i ls) + (if i = 0 then 1 else 0)"
proof (induction ls arbitrary: i)
  case (Cons l ls)
  have "20 \<le> length (b64_spec (char_bytes l))"
  proof -
    have "(15 + 2) div 3 \<le> (length l + 2) div 3" using Cons.prems by (intro div_le_mono) simp
    then show ?thesis by (simp add: length_b64_spec char_bytes_def)
  qed
  with Cons.IH[of "i + 1"] Cons.prems show ?case by (cases "i > 0") (auto simp: json_str_def)
qed simp

lemma dump_items_cstring: "is_cstring (dump_items i ls)"
  by (induction ls arbitrary: i) (auto simp: json_str_def is_cstring_b64_spec)

lemma log_inv_distinct:
  assumes "log_inv ctx h" "logdump ctx = map Some ps @ rest" shows "distinct ps"
proof -
  have "distinct (filter (\<lambda>s. s \<noteq> None) (map Some ps))" using assms by (auto simp: log_inv_def)
  then show ?thesis by (simp add: distinct_map filter_map comp_def)
qed

lemma log_inv_free:
  assumes "log_inv ctx h" "dom (blocks h') = dom (blocks h)" shows "free_logs ctx h' \<noteq> None"
proof -
  have "Some p \<in> set (logdump ctx) \<Longrightarrow> p \<in> dom (blocks h)" for p using assms(1) by (auto simp: log_inv_def)
  then have "distinct (filter (\<lambda>s. s \<noteq> None) (logdump ctx))" "\<forall>p. Some p \<in> set (logdump ctx) \<longrightarrow> blocks h' p \<noteq> None"
    using assms(1) unfolding assms(2)[symmetric] by (auto simp: log_inv_def)
  from free_slots_frees[OF this] show ?thesis by (auto simp: free_logs_def)
qed

text \<open>
  The dump of the logs \<open>ps\<close> when every allocation succeeds: the JSON text is published
  whole when it is shorter than the message buffer, and is undefined behaviour otherwise.
\<close>

lemma logdump_fn_sends:
  assumes env: "mqtt_env_ok env" "\<forall>k. b64_env_ok (enc_env env k)" "array_calloc env" "payload_malloc env"
    and epoch: "get_current_epoch ctx (epoch_ms env) = (DT_ERR_OK, Some now)"
    and inv: "log_inv ctx h" and slots: "logdump ctx = map Some ps @ rest" "rest = [] \<or> hd rest = None"
    and lines: "\<forall>p \<in> set ps. dumpable now (hw_ms env) h line p" "\<forall>p \<in> set ps. length (line p) \<le> 1023"
    and cl: "c_str (prv_token ctx) = Some token" "mqtt_client ctx = Some st" "lwip_client st"
  shows "\<exists>h'. free_logs ctx h' \<noteq> None \<and> dom (blocks h') = dom (blocks h) \<and> logdump_fn env ctx h =
    (let m = logdump_json (dev_mac env) token (dump_array (map line ps))
     in if length m < 128
        then Some (if publish_err env TOPIC_LOGDUMP m \<noteq> ERR_OK then DT_ERR_LWIPERR else DT_ERR_OK,
                   the (free_logs ctx h'), [Mqtt_publish TOPIC_LOGDUMP m])
        else None)"
proof -
  have l16: "length (logdump ctx) = 16" using inv by (simp add: log_inv_def)
  then have len16: "length ps \<le> 16" "take numlogs (logdump ctx) = map Some ps @ rest"
    by (simp_all add: slots(1) numlogs_def)
  have dist: "distinct ps" by (rule log_inv_distinct[OF inv slots(1)])
  let ?items = "dump_items 0 (map line ps)"
  have b: "length ?items \<le> 21872" using dump_items_bound[of "map line ps" 0] lines(2) len16(1) by auto
  have L: "logarrsize = 21985" by (simp add: logarrsize_def logarr_consts)
  let ?r = "replicate 21983 NUL" and ?arr = "dump_array (map line ps)"
  have "replicate logarrsize NUL = NUL # replicate 21984 NUL" by (simp add: L flip: replicate_Suc)
  then have a0: "arr_put (replicate logarrsize NUL, 0) ''['' = Some (''['' @ NUL # ?r, length ''['')"
    using arr_put_text[of "[]" "replicate 21984 NUL" "''[''"] by (simp add: L)
  obtain h1 r1 where l1: "logdump_loop env now (hw_ms env) 0 (map Some ps @ rest) h (''['' @ NUL # ?r, length ''['') =
      Some (h1, Inr ((''['' @ ?items) @ NUL # r1, length (''['' @ ?items)))"
    "length r1 = 21983 - length ?items" "dom (blocks h1) = dom (blocks h)"
    using logdump_loop_items[OF env(2) dist slots(2) lines(1), of "''[''" ?r 0] b by (auto simp: L)
  have a2: "arr_put ((''['' @ ?items) @ NUL # r1, length (''['' @ ?items)) '']'' =
      Some (?arr @ NUL # drop 1 r1, length ?arr)"
    using arr_put_text[of "''['' @ ?items" r1 "'']''"] l1(2) b by (simp add: L dump_array_def)
  have ca: "is_cstring ?arr" by (simp add: dump_array_def dump_items_cstring)
  have ct: "is_cstring token" using c_str_Some[OF cl(1)] by simp
  let ?m = "logdump_json (dev_mac env) token ?arr"
  have cm: "is_cstring ?m" using ca ct by (simp add: logdump_json_def json_key_def mqtt_simps)
  have p: "c_snprintf (fresh_bytes env (length ?m + 1)) 0 (length ?m + 1) ?m = Some (?m @ [NUL])"
    using env(1) by (subst snprintf_fits) (simp_all add: mqtt_env_ok_def)
  have fr: "free_logs ctx h1 \<noteq> None" by (rule log_inv_free[OF inv l1(3)])
  then obtain h2 where h2: "free_logs ctx h1 = Some h2" by blast
  have "logdump_fn env ctx h = (case publish env (Some st) TOPIC_LOGDUMP (?m @ [NUL]) of
      None \<Rightarrow> None | Some (err, calls) \<Rightarrow> Some (err, h2, calls))"
    using c_str_terminated[OF ca, of "drop 1 r1"]
    by (simp only: logdump_fn_def epoch env(3,4) a0 len16(2) l1(1) a2 cl p h2 prod.case dt_err.case option.case
        sum.case Option.bind.simps if_True if_False not_True_eq_False Let_def)
       (simp add: Option.bind_def split: option.splits)
  then show ?thesis
    using fr h2 l1(3) cl publish_cstring[OF cm, of env st TOPIC_LOGDUMP "[]"]
    by (intro exI[of _ h1]) (simp add: Let_def)
qed

text \<open>Four lines are always too many.\<close>

lemma logdump_json_long:
  assumes "\<forall>l \<in> set ls. 15 \<le> length l" "4 \<le> length ls"
  shows "128 \<le> length (logdump_json mac token (dump_array ls))"
  using dump_items_least[OF assms(1), of 0] assms(2)
  by (simp add: logdump_json_def dump_array_def json_key_def mqtt_simps)

section \<open>After a dump\<close>

lemma free_slots_gone: "free_slots slots h = Some h' \<Longrightarrow> Some p \<in> set slots \<Longrightarrow> blocks h' p = None"
proof (induction slots arbitrary: h)
  case (Cons x slots)
  have keep: "free_slots s g = Some g' \<Longrightarrow> blocks g p = None \<Longrightarrow> blocks g' p = None" for s g g'
    by (induction s arbitrary: g)
      (auto simp: heap_free_def bind_eq_Some_conv split: option.splits elim!: free_slots.elims)
  show ?case
  proof (cases x)
    case None
    with Cons show ?thesis by simp
  next
    case (Some q)
    with Cons.prems(1) obtain h1 where h1: "heap_free q h = Some h1" "free_slots slots h1 = Some h'"
      by (auto simp: bind_eq_Some_conv)
    show ?thesis
    proof (cases "Some p \<in> set slots")
      case True
      with Cons.IH[OF h1(2)] show ?thesis by simp
    next
      case False
      with Cons.prems(2) Some h1(1) have "blocks h1 p = None" by (auto simp: heap_free_def split: option.splits)
      with keep[OF h1(2)] show ?thesis by simp
    qed
  qed
qed simp

lemma logdump_frees:
  assumes "logdump_fn env ctx h = Some (e, h', calls)" "calls \<noteq> []"
  shows "\<exists>h1. free_logs ctx h1 = Some h'"
  using assms unfolding logdump_fn_def
  by (auto simp: bind_eq_Some_conv Let_def split: prod.split_asm dt_err.split_asm option.split_asm if_split_asm)
     (auto split: sum.split_asm if_split_asm prod.split_asm simp: bind_eq_Some_conv)

lemma freed_twice: "free_logs ctx h1 = Some h' \<Longrightarrow> Some p \<in> set (logdump ctx) \<Longrightarrow> free_logs ctx h' = None"
  unfolding free_logs_def by (rule free_slots_missing[OF _ free_slots_gone])

section \<open>Every stored line can be dumped\<close>

text \<open>A line of the log after its time stamp was rewritten for a dump.\<close>

definition dumped_line :: "u64 \<Rightarrow> u64 \<Rightarrow> heap \<Rightarrow> ptr \<Rightarrow> string" where
  "dumped_line now hwnow h p = the (c_str (the (log_transform_ts (the (blocks h p)) now hwnow)))"

lemma log_inv_dumpable:
  assumes "log_inv ctx h" "Some p \<in> set (logdump ctx)"
  shows "dumpable now hwnow h (dumped_line now hwnow h) p"
    and "15 \<le> length (dumped_line now hwnow h p)" and "length (dumped_line now hwnow h p) \<le> 1023"
proof -
  obtain b ms r where b: "blocks h p = Some b" "length b = MAX_LOG_LEN" "ms < 10 ^ 13"
    "c_str b = Some (''['' @ pad0 13 (dec ms) @ '']'' @ r)"
    using assms by (auto simp: log_inv_def line_ok_def)
  from log_transform_any[OF b(4,3), of now hwnow] obtain b' where b': "log_transform_ts b now hwnow = Some b'" "length b' = 1024"
    "c_str b' = Some (''['' @ take 13 (pad0 13 (dec (unat (now - (hwnow - of_nat ms))))) @ '']'' @ r)"
    using b(2) by (auto simp: MAX_LOG_LEN_def)
  have l: "dumped_line now hwnow h p = ''['' @ take 13 (pad0 13 (dec (unat (now - (hwnow - of_nat ms))))) @ '']'' @ r"
    using b(1) b' by (simp add: dumped_line_def)
  show "dumpable now hwnow h (dumped_line now hwnow h) p"
    using b(1) b' l by (auto simp: dumpable_def)
  show "15 \<le> length (dumped_line now hwnow h p)" unfolding l using length_pad0_ge[of 13] by simp
  show "length (dumped_line now hwnow h p) \<le> 1023" using c_str_Some[OF b'(3)] b'(2) unfolding l by simp
qed

section \<open>Properties\<close>

text \<open>
  C33 (mqtt_fragments). A message of at most 255 bytes that arrives in any fragments is printed whole (up to its
  first NUL) when the last fragment is in.
\<close>

theorem mqtt_fragments:
  assumes "ds \<noteq> []" "\<forall>d \<in> set ds. d \<noteq> []" "length (concat ds) \<le> 255" "length (in_buffer g) = 1025"
  shows "\<exists>g'. mqtt_pub_data (mqtt_pub_start_cb g (of_nat (length (concat ds)))) ds =
    Some (g', Some (takeWhile (\<lambda>c. c \<noteq> NUL) (concat ds)))"
  using pub_message[OF assms(1,2) _ assms(4)] arrive_short[of 0 ds "in_buffer g"] assms(3,4) by simp

theorem mqtt_fragments_witness:
  "\<exists>g'. mqtt_pub_data (mqtt_pub_start_cb inpub_start 5) [''he'', ''llo''] = Some (g', Some ''hello'')"
  using mqtt_fragments[of "[''he'', ''llo'']" inpub_start] by (simp add: inpub_start_def)

text \<open>
  C34 (mqtt_long_message_cut). A longer message, up to the 1024 bytes the buffer is meant for, is cut, whatever its
  fragments: the fill level is a byte, so each fragment is stored at the number of bytes before it modulo 256, over
  what arrived earlier, and the text printed ends at the total modulo 256. It lacks at least 256 bytes.
\<close>

theorem mqtt_long_message_cut:
  assumes "\<forall>d \<in> set ds. d \<noteq> []" "255 < length (concat ds)" "length (concat ds) \<le> 1024"
    and "length (in_buffer g) = 1025"
  shows "\<exists>g' out. mqtt_pub_data (mqtt_pub_start_cb g (of_nat (length (concat ds)))) ds = Some (g', Some out) \<and>
    out = takeWhile (\<lambda>c. c \<noteq> NUL) (take (length (concat ds) mod 256) (arrive 0 (in_buffer g) ds)) \<and>
    length out + 256 \<le> length (concat ds)"
proof -
  let ?n = "length (concat ds)"
  let ?out = "takeWhile (\<lambda>c. c \<noteq> NUL) (take (?n mod 256) (arrive 0 (in_buffer g) ds))"
  have "ds \<noteq> []" using assms(2) by auto
  from pub_message[OF this assms(1,3,4)] obtain g' where
    "mqtt_pub_data (mqtt_pub_start_cb g (of_nat ?n)) ds = Some (g', Some ?out)" by blast
  moreover have "length ?out \<le> ?n mod 256"
    by (rule le_trans[OF length_takeWhile_le]) simp
  then have "length ?out + 256 \<le> ?n" using assms(2) by (simp add: mod_if[of ?n])
  ultimately show ?thesis by blast
qed

theorem mqtt_long_message_cut_witness:
  "\<exists>g'. mqtt_pub_data (mqtt_pub_start_cb inpub_start 400) [replicate 256 (CHR ''a''), replicate 144 (CHR ''b'')] =
     Some (g', Some (replicate 144 (CHR ''b'')))"
proof -
  have "takeWhile (\<lambda>c. c \<noteq> NUL) (replicate 144 (CHR ''b'')) = replicate 144 (CHR ''b'')" by (simp add: takeWhile_eq_all_conv)
  with mqtt_long_message_cut[of "[replicate 256 (CHR ''a''), replicate 144 (CHR ''b'')]" inpub_start] show ?thesis
    by (simp add: inpub_start_def)
qed

text \<open>An environment in which everything succeeds, and a connected client.\<close>

definition std_mqtt_env :: mqtt_env where
  "std_mqtt_env = \<lparr>dev_mac = [0x28, 0xCD, 0xC1, 0, 5, 6], fresh_bytes = (\<lambda>n. replicate n (CHR 0xAA)), payload_malloc = True,
     array_calloc = True, client_calloc = True, client_new = True, wifi_connect = (\<lambda>_ _. 0),
     ip4addr_aton = (\<lambda>_. Some 1), connect_err = (\<lambda>_ _. ERR_OK), publish_err = (\<lambda>_ _. ERR_OK),
     conn_log = (\<lambda>_. log_env_at 5), enc_env = (\<lambda>_. full_b64_env), epoch_ms = 5000, hw_ms = 5000\<rparr>"

lemma std_mqtt_env_ok: "mqtt_env_ok std_mqtt_env" "\<forall>k. b64_env_ok (enc_env std_mqtt_env k)"
  by (simp_all add: mqtt_env_ok_def std_mqtt_env_def full_b64_env_ok)

definition std_client :: mqtt_client_t where
  "std_client = \<lparr>remote_addr = 1, lwip_client = True, received = 0, counter = 0, reconnect = 0\<rparr>"

definition token_ctx :: "string \<Rightarrow> app_ctx" where
  "token_ctx t = zero_ctx\<lparr>prv_token := t @ replicate (64 - length t) NUL, mqtt_client := Some std_client\<rparr>"

lemma token_ctx_token: "is_cstring t \<Longrightarrow> length t < 64 \<Longrightarrow> c_str (prv_token (token_ctx t)) = Some t"
  by (cases "64 - length t") (auto simp: token_ctx_def c_str_append)

text \<open>
  C31 (provision_message). Provisioning publishes the address and the contract as JSON, without the closing brace: the
  size given to \<open>snprintf\<close> leaves no room for it. The message always fits the buffer.
\<close>

theorem provision_message:
  assumes "mqtt_env_ok env" "payload_malloc env" "c_str (prv_token ctx) = Some token" "length (prv_token ctx) = 64"
    and "mqtt_client ctx = Some st" "lwip_client st"
  shows "\<exists>m e. provision env ctx = Some (e, [Mqtt_publish TOPIC_PROVISION m]) \<and>
    m @ ''}'' = provision_json (dev_mac env) token \<and>
    (e = DT_ERR_OK \<longleftrightarrow> publish_err env TOPIC_PROVISION m = ERR_OK)"
proof -
  have "length token < 64" using c_str_Some[OF assms(3)] assms(4) by simp
  from provision_sends[OF assms(1-3) this assms(5,6)] show ?thesis by (simp add: provision_json_def Let_def)
qed

theorem provision_message_witness:
  "\<exists>m. provision std_mqtt_env (token_ctx ''abc'') = Some (DT_ERR_OK, [Mqtt_publish TOPIC_PROVISION m]) \<and>
     m @ ''}'' = provision_json [0x28, 0xCD, 0xC1, 0, 5, 6] ''abc''"
  using provision_message[OF std_mqtt_env_ok(1), of "token_ctx ''abc''" "''abc''" std_client] token_ctx_token[of "''abc''"]
  by (auto simp: std_mqtt_env_def token_ctx_def std_client_def)

text \<open>
  C32 (breadcrumb_message). A sample is published as JSON with both readings in decimal, again without the closing
  brace, as long as the contract and the digits of the readings have fewer than 50 characters
  together; from 50 on the unterminated message buffer is read past its end.
\<close>

theorem breadcrumb_message:
  assumes "mqtt_env_ok env" "payload_malloc env" "c_str (prv_token ctx) = Some token"
    and "mqtt_client ctx = Some st" "lwip_client st"
  shows "if length token + length (dec (unat (capacitance ctx))) + length (dec (unat (temperature ctx))) < 50
    then \<exists>m e. breadcrumb env ctx = Some (e, [Mqtt_publish TOPIC_BREADCRUMB m]) \<and>
           m @ ''}'' = breadcrumb_json (dev_mac env) token (capacitance ctx) (temperature ctx) \<and>
           (e = DT_ERR_OK \<longleftrightarrow> publish_err env TOPIC_BREADCRUMB m = ERR_OK)
    else breadcrumb env ctx = None"
  using breadcrumb_sends[OF assms] by (simp add: breadcrumb_body_length breadcrumb_json_body Let_def)

theorem breadcrumb_message_witness:
  "(\<exists>m. breadcrumb std_mqtt_env (token_ctx ''abc'') = Some (DT_ERR_OK, [Mqtt_publish TOPIC_BREADCRUMB m]) \<and>
     m @ ''}'' = breadcrumb_json [0x28, 0xCD, 0xC1, 0, 5, 6] ''abc'' 0 0) \<and>
   breadcrumb std_mqtt_env (token_ctx (replicate 60 (CHR ''t''))) = None"
proof -
  have "is_cstring (replicate 60 (CHR ''t''))" by (simp add: is_cstring_def)
  then have t: "c_str (prv_token (token_ctx (replicate 60 (CHR ''t'')))) = Some (replicate 60 (CHR ''t''))"
    "c_str (prv_token (token_ctx ''abc'')) = Some ''abc''" by (simp_all add: token_ctx_token)
  have m: "payload_malloc std_mqtt_env" "lwip_client std_client" "\<And>x. mqtt_client (token_ctx x) = Some std_client"
    "\<And>x. capacitance (token_ctx x) = 0" "\<And>x. temperature (token_ctx x) = 0"
    by (simp_all add: std_mqtt_env_def std_client_def token_ctx_def zero_ctx_def)
  show ?thesis
    using breadcrumb_message[OF std_mqtt_env_ok(1) m(1) t(1) m(3,2)] breadcrumb_message[OF std_mqtt_env_ok(1) m(1) t(2) m(3,2)]
    by (auto simp: m dec_numeral std_mqtt_env_def)
qed

text \<open>
  C29 (logdump_message). A dump publishes every line of the log, its time stamp rewritten to wall-clock time and its
  text in base64, as one JSON array, and frees the lines, provided the message is shorter
  than 128 characters.
\<close>

theorem logdump_message:
  assumes "mqtt_env_ok env" "\<forall>k. b64_env_ok (enc_env env k)" "array_calloc env" "payload_malloc env"
    and "get_current_epoch ctx (epoch_ms env) = (DT_ERR_OK, Some now)" "log_inv ctx h"
    and "logdump ctx = map Some ps @ rest" "rest = [] \<or> hd rest = None"
    and "c_str (prv_token ctx) = Some token" "mqtt_client ctx = Some st" "lwip_client st"
    and "m = logdump_json (dev_mac env) token (dump_array (map (dumped_line now (hw_ms env) h) ps))" "length m < 128"
  shows "\<exists>e h'. logdump_fn env ctx h = Some (e, h', [Mqtt_publish TOPIC_LOGDUMP m]) \<and>
    (e = DT_ERR_OK \<longleftrightarrow> publish_err env TOPIC_LOGDUMP m = ERR_OK) \<and> (\<forall>p \<in> set ps. blocks h' p = None)"
proof -
  have ps: "\<forall>p \<in> set ps. Some p \<in> set (logdump ctx)" using assms(7) by simp
  then have l: "\<forall>p \<in> set ps. dumpable now (hw_ms env) h (dumped_line now (hw_ms env) h) p"
    "\<forall>p \<in> set ps. length (dumped_line now (hw_ms env) h p) \<le> 1023"
    using log_inv_dumpable[OF assms(6)] by auto
  from logdump_fn_sends[OF assms(1-8) l assms(9-11)] assms(12,13) obtain h' where
    h': "free_logs ctx h' \<noteq> None" "logdump_fn env ctx h = Some (if publish_err env TOPIC_LOGDUMP m \<noteq> ERR_OK then DT_ERR_LWIPERR else DT_ERR_OK,
                   the (free_logs ctx h'), [Mqtt_publish TOPIC_LOGDUMP m])" by (auto simp: Let_def)
  have "\<forall>p \<in> set ps. blocks (the (free_logs ctx h')) p = None"
    using h'(1) ps free_slots_gone[of "logdump ctx" h'] by (auto simp: free_logs_def)
  with h'(2) show ?thesis by auto
qed

text \<open>Contexts with an online clock and one or sixteen stored lines.\<close>

definition online_clock :: ntp_t where
  "online_clock = ntp_fresh\<lparr>epoch_secs := 1700000000, hw_ref_ms := 2000, synced := True\<rparr>"

definition dump_ctx :: "ptr list \<Rightarrow> app_ctx" where
  "dump_ctx ps = (token_ctx ''abc'')\<lparr>ntp_state := Some online_clock,
     logdump := map Some ps @ replicate (16 - length ps) None\<rparr>"

lemma dump_ctx_facts:
  shows "get_current_epoch (dump_ctx ps) 5000 = (DT_ERR_OK, Some 1700000003000)"
    and "c_str (prv_token (dump_ctx ps)) = Some ''abc''" and "mqtt_client (dump_ctx ps) = Some std_client"
    and "ps = [0] \<or> ps = [0..<16] \<Longrightarrow> log_inv (dump_ctx ps) full_log_heap"
proof -
  show "get_current_epoch (dump_ctx ps) 5000 = (DT_ERR_OK, Some 1700000003000)"
    by (simp add: get_current_epoch_def dump_ctx_def online_clock_def)
  show "c_str (prv_token (dump_ctx ps)) = Some ''abc''" "mqtt_client (dump_ctx ps) = Some std_client"
    using token_ctx_token[of "''abc''"] by (simp_all add: dump_ctx_def token_ctx_def)
  have "filter (\<lambda>s. s \<noteq> None) (map Some xs) = map Some xs" for xs :: "ptr list" by (simp add: filter_id_conv)
  then show "log_inv (dump_ctx ps) full_log_heap" if "ps = [0] \<or> ps = [0..<16]"
    using that full_block_ok
    by (auto simp: log_inv_def dump_ctx_def full_log_heap_def heap_wf_def distinct_map split: if_splits)
qed

lemma dumped_full_block: "p < 16 \<Longrightarrow> length (dumped_line now hwnow full_log_heap p) = 17"
  using log_transform_any[OF full_block_text(1), of now hwnow] length_pad0_ge[of 13]
  by (auto simp: dumped_line_def full_log_heap_def)

theorem logdump_message_witness:
  "\<exists>h' m. logdump_fn std_mqtt_env (dump_ctx [0]) full_log_heap = Some (DT_ERR_OK, h', [Mqtt_publish TOPIC_LOGDUMP m]) \<and>
     blocks h' 0 = None"
proof -
  let ?m = "logdump_json (dev_mac std_mqtt_env) ''abc'' (dump_array (map (dumped_line 1700000003000 (hw_ms std_mqtt_env) full_log_heap) [0]))"
  have len: "length ?m < 128"
    by (simp add: logdump_json_def mqtt_simps json_key_def dump_array_def json_str_def length_b64_spec char_bytes_def dumped_full_block)
  have e: "array_calloc std_mqtt_env" "payload_malloc std_mqtt_env"
    "get_current_epoch (dump_ctx [0]) (epoch_ms std_mqtt_env) = (DT_ERR_OK, Some 1700000003000)"
    using dump_ctx_facts(1) by (simp_all add: std_mqtt_env_def)
  have r: "logdump (dump_ctx [0]) = map Some [0] @ replicate 15 None" "lwip_client std_client"
    "replicate 15 None = [] \<or> hd (replicate 15 None) = None"
    by (simp_all add: dump_ctx_def std_client_def)
  from logdump_message[OF std_mqtt_env_ok e dump_ctx_facts(4) r(1,3) dump_ctx_facts(2,3) r(2) refl len]
  show ?thesis by (auto simp: std_mqtt_env_def)
qed

text \<open>
  C30 (logdump_overflow). With four lines or more in the log the dump is undefined behaviour: the message does not fit
  the 128-byte buffer of \<open>publish\<close>, which is then read past its end.
\<close>

theorem logdump_overflow:
  assumes "mqtt_env_ok env" "\<forall>k. b64_env_ok (enc_env env k)" "array_calloc env" "payload_malloc env"
    and "get_current_epoch ctx (epoch_ms env) = (DT_ERR_OK, Some now)" "log_inv ctx h"
    and "logdump ctx = map Some ps @ rest" "rest = [] \<or> hd rest = None" "4 \<le> length ps"
    and "c_str (prv_token ctx) = Some token" "mqtt_client ctx = Some st" "lwip_client st"
  shows "logdump_fn env ctx h = None"
proof -
  have ps: "\<forall>p \<in> set ps. Some p \<in> set (logdump ctx)" using assms(7) by simp
  then have l: "\<forall>p \<in> set ps. dumpable now (hw_ms env) h (dumped_line now (hw_ms env) h) p"
    "\<forall>p \<in> set ps. length (dumped_line now (hw_ms env) h p) \<le> 1023"
    "\<forall>x \<in> set (map (dumped_line now (hw_ms env) h) ps). 15 \<le> length x"
    using log_inv_dumpable[OF assms(6)] by auto
  have "128 \<le> length (logdump_json (dev_mac env) token (dump_array (map (dumped_line now (hw_ms env) h) ps)))"
    using logdump_json_long[OF l(3)] assms(9) by simp
  with logdump_fn_sends[OF assms(1-8) l(1,2) assms(10-12)] show ?thesis by (auto simp: Let_def)
qed


theorem logdump_overflow_witness: "logdump_fn std_mqtt_env (dump_ctx [0..<16]) full_log_heap = None"
proof -
  have e: "array_calloc std_mqtt_env" "payload_malloc std_mqtt_env"
    "get_current_epoch (dump_ctx [0..<16]) (epoch_ms std_mqtt_env) = (DT_ERR_OK, Some 1700000003000)"
    using dump_ctx_facts(1) by (simp_all add: std_mqtt_env_def)
  have r: "logdump (dump_ctx [0..<16]) = map Some [0..<16] @ []" "lwip_client std_client" "4 \<le> length [0..<16]"
    by (simp_all add: dump_ctx_def std_client_def)
  show ?thesis
    by (rule logdump_overflow[OF std_mqtt_env_ok e dump_ctx_facts(4) r(1) _ r(3) dump_ctx_facts(2,3) r(2)]) simp_all
qed

end
