(* ===== verification/Sensor.thy ===== *)
theory Sensor
  imports Ctx
begin

text \<open>
  Model of \<open>src/sensor/sensor.c\<close>: 16-bit register reads from the soil sensor over I2C, the
  bus initialisation and the two handlers. The I2C driver and the GPIO calls belong to the
  Pico SDK: the bytes a read delivers, with its return value, are a parameter.
\<close>

definition ADAFRUIT_SENSOR_ADDR :: u8 where "ADAFRUIT_SENSOR_ADDR = 0x36"
definition REG_CAPACITANCE_BASE :: u8 where "REG_CAPACITANCE_BASE = 0x0F"
definition REG_CAPACITANCE_FUNC :: u8 where "REG_CAPACITANCE_FUNC = 0x10"
definition REG_STATUS_BASE :: u8 where "REG_STATUS_BASE = 0x00"
definition REG_STATUS_TEMP_FUNC :: u8 where "REG_STATUS_TEMP_FUNC = 0x04"
definition BAUDRATE :: int where "BAUDRATE = 100 * 1000"
definition SDA_PIN :: nat where "SDA_PIN = 4"
definition SCL_PIN :: nat where "SCL_PIN = 5"

lemmas sensor_consts = ADAFRUIT_SENSOR_ADDR_def REG_CAPACITANCE_BASE_def REG_CAPACITANCE_FUNC_def
  REG_STATUS_BASE_def REG_STATUS_TEMP_FUNC_def BAUDRATE_def

text \<open>
  \<open>i2c_read addr regs n\<close>: after writing the register selectors \<open>regs\<close> to \<open>addr\<close> and the
  delay, the return value of \<open>i2c_read_blocking\<close> for \<open>n\<close> bytes and the bytes it stored.
\<close>

record i2c_env =
  i2c_read :: "u8 \<Rightarrow> u8 list \<Rightarrow> nat \<Rightarrow> int \<times> u8 list"
  i2c_init_baud :: int

section \<open>Register reads\<close>

definition seesaw_reg_read ::
  "i2c_env \<Rightarrow> u8 \<Rightarrow> u8 \<Rightarrow> u8 \<Rightarrow> u8 list \<Rightarrow> nat \<Rightarrow> (int \<times> u8 list) option" where
  "seesaw_reg_read env addr baseReg funcReg buf nbytes =
     (if nbytes < 1 then Some (0, buf)
      else do {
        let (num_bytes_read, data) = i2c_read env addr [baseReg, funcReg] nbytes;
        buf' \<leftarrow> blit buf 0 data;
        Some (num_bytes_read, buf')
      })"

definition seesaw_read_16 :: "i2c_env \<Rightarrow> u8 \<Rightarrow> u8 \<Rightarrow> u8 \<Rightarrow> u16 option" where
  "seesaw_read_16 env addr baseReg funcReg = do {
     (num_bytes_read, buf) \<leftarrow> seesaw_reg_read env addr baseReg funcReg [0, 0] 2;
     if num_bytes_read < 0 then Some (- 1)
     else do {
       b0 \<leftarrow> rd buf 0;
       b1 \<leftarrow> rd buf 1;
       Some (push_bit 8 (ucast b0) OR ucast b1)
     }
   }"

section \<open>Initialisation and handlers\<close>

definition baud_warning :: "int \<Rightarrow> string" where
  "baud_warning act = ''WARN: actual baud rate '' @ [CHR 0x27] @ dec_int act @ [CHR 0x27] @
     '' not equal to configured baud rate '' @ [CHR 0x27] @ dec_int BAUDRATE @ [CHR 0x27] @ [CHR 0x0A]"

text \<open>
  The result is the int behind \<open>DT_ERR_E\<close>: on a wrong baud rate the code returns what
  \<open>printf\<close> returns, the number of characters printed. \<open>gpios\<close> are the pins configured.
\<close>

definition sensor_init :: "i2c_env \<Rightarrow> int \<times> nat list" where
  "sensor_init env =
     (let act_baudrate = i2c_init_baud env
      in if act_baudrate \<noteq> BAUDRATE then (int (length (baud_warning act_baudrate)), [])
         else (err_code DT_ERR_OK, [SDA_PIN, SCL_PIN]))"

definition sense_init_handler :: "i2c_env \<Rightarrow> app_ctx \<Rightarrow> int \<times> app_ctx" where
  "sense_init_handler env ctx =
     (let (err, _) = sensor_init env
      in if err \<noteq> err_code DT_ERR_OK then (err, ctx)
         else (err_code DT_ERR_OK, ctx\<lparr>sense_initd := True\<rparr>))"

text \<open>
  The handler ends without a return statement: the first component of its result is the value it
  returns, \<open>None\<close> for none, which a caller must not use. Two environments, one for each register read.
\<close>

definition sense_listen_handler ::
  "i2c_env \<Rightarrow> i2c_env \<Rightarrow> app_ctx \<Rightarrow> (int option \<times> app_ctx) option" where
  "sense_listen_handler env1 env2 ctx = do {
     let ctx1 = ctx\<lparr>cprev := capacitance ctx\<rparr>;
     c \<leftarrow> seesaw_read_16 env1 ADAFRUIT_SENSOR_ADDR REG_CAPACITANCE_BASE REG_CAPACITANCE_FUNC;
     let ctx2 = ctx1\<lparr>capacitance := c, tprev := temperature ctx1\<rparr>;
     t \<leftarrow> seesaw_read_16 env2 ADAFRUIT_SENSOR_ADDR REG_STATUS_BASE REG_STATUS_TEMP_FUNC;
     Some (None, ctx2\<lparr>temperature := t\<rparr>)
   }"

text \<open>The diagnostic of the hardware test: both registers, printed.\<close>

definition sensor_test :: "i2c_env \<Rightarrow> i2c_env \<Rightarrow> (int \<times> string) option" where
  "sensor_test env1 env2 = do {
     c \<leftarrow> seesaw_read_16 env1 ADAFRUIT_SENSOR_ADDR REG_CAPACITANCE_BASE REG_CAPACITANCE_FUNC;
     t \<leftarrow> seesaw_read_16 env2 ADAFRUIT_SENSOR_ADDR REG_STATUS_BASE REG_STATUS_TEMP_FUNC;
     Some (0, ''capacitance: '' @ dec (unat c) @ [CHR 0x0A] @ ''temp: '' @ dec (unat t) @ [CHR 0x0A])
   }"

section \<open>Lemmas\<close>

text \<open>The documented result of a read: an error, or exactly the bytes asked for.\<close>

definition i2c_env_ok :: "i2c_env \<Rightarrow> bool" where
  "i2c_env_ok env \<longleftrightarrow> (\<forall>a r n. case i2c_read env a r n of (k, d) \<Rightarrow>
     (k < 0 \<and> d = []) \<or> (k = int n \<and> length d = n))"

lemma seesaw_read_16_value:
  assumes "i2c_read env addr [b, f] 2 = (k, d)" "k \<ge> 0" "length d = 2"
  shows "seesaw_read_16 env addr b f = Some (push_bit 8 (ucast (d ! 0)) OR ucast (d ! 1))"
  using assms by (cases d) (auto simp: seesaw_read_16_def seesaw_reg_read_def blit_def rd_def)

lemma seesaw_read_16_error:
  assumes "i2c_read env addr [b, f] 2 = (k, [])" "k < 0"
  shows "seesaw_read_16 env addr b f = Some (- 1)"
  using assms by (simp add: seesaw_read_16_def seesaw_reg_read_def blit_def)

lemma seesaw_read_16_defined:
  assumes "i2c_env_ok env" shows "\<exists>v. seesaw_read_16 env addr b f = Some v"
proof -
  obtain k d where kd: "i2c_read env addr [b, f] 2 = (k, d)" by fastforce
  with assms have "(k < 0 \<and> d = []) \<or> (k = 2 \<and> length d = 2)"
    unfolding i2c_env_ok_def by (metis (mono_tags, lifting) case_prod_conv of_nat_numeral)
  with kd seesaw_read_16_value seesaw_read_16_error show ?thesis by (metis zero_le_numeral)
qed

lemma be16_value: "unat (push_bit 8 (ucast (a :: u8)) OR ucast (b :: u8) :: u16) = 256 * unat a + unat b"
proof -
  have "push_bit 8 (ucast a) OR (ucast b :: u16) = push_bit 8 (ucast a) + ucast b"
    by (rule disjunctive_add[symmetric]) (auto simp: bit_simps dest: bit_imp_le_length)
  moreover have "unat (push_bit 8 (ucast a) :: u16) = 256 * unat a"
    using unat_u8_lt[of a] by (simp add: push_bit_eq_mult unat_word_ariths unat_ucast)
  ultimately show ?thesis
    using unat_u8_lt[of a] unat_u8_lt[of b] by (simp add: unat_word_ariths unat_ucast)
qed

section \<open>Properties\<close>

text \<open>What one register read stands for.\<close>

definition register_value :: "i2c_env \<Rightarrow> u8 \<Rightarrow> u8 \<Rightarrow> u16 \<Rightarrow> bool" where
  "register_value env b f v \<longleftrightarrow>
     (case i2c_read env ADAFRUIT_SENSOR_ADDR [b, f] 2 of
        (k, d) \<Rightarrow> if k < 0 then v = 0xFFFF else unat v = 256 * unat (d ! 0) + unat (d ! 1))"

lemma seesaw_register:
  assumes "i2c_env_ok env"
  shows "\<exists>v. seesaw_read_16 env ADAFRUIT_SENSOR_ADDR b f = Some v \<and> register_value env b f v"
proof -
  obtain k d where r: "i2c_read env ADAFRUIT_SENSOR_ADDR [b, f] 2 = (k, d)" by (metis prod.exhaust)
  then have "k < 0 \<and> d = [] \<or> k = 2 \<and> length d = 2"
    using assms[unfolded i2c_env_ok_def, rule_format, of 2 ADAFRUIT_SENSOR_ADDR "[b, f]"] by simp
  then show ?thesis
    using seesaw_read_16_error[of env ADAFRUIT_SENSOR_ADDR b f k] seesaw_read_16_value[of env ADAFRUIT_SENSOR_ADDR b f k d]
    by (auto simp: register_value_def r be16_value)
qed

text \<open>A bus that answers every read with two given bytes, or with an error.\<close>

definition bus_bytes :: "u8 \<Rightarrow> u8 \<Rightarrow> i2c_env" where
  "bus_bytes a b = \<lparr>i2c_read = (\<lambda>_ _ n. (int n, take n (a # b # replicate (n - 2) 0))), i2c_init_baud = 100000\<rparr>"

definition bus_broken :: i2c_env where
  "bus_broken = \<lparr>i2c_read = (\<lambda>_ _ _. (- 1, [])), i2c_init_baud = 99999\<rparr>"

lemma bus_ok: "i2c_env_ok (bus_bytes a b)" "i2c_env_ok bus_broken"
  by (auto simp: i2c_env_ok_def bus_bytes_def bus_broken_def)

text \<open>
  The sampling handler keeps the previous readings and stores the new ones: the two bytes of
  each register as a big-endian number, or 65535 when the bus reports an error. It ends without
  returning a value.
\<close>

theorem sensor_reading:
  assumes "i2c_env_ok env1" "i2c_env_ok env2"
  shows "\<exists>c t. sense_listen_handler env1 env2 ctx =
      Some (None, ctx\<lparr>cprev := capacitance ctx, tprev := temperature ctx, capacitance := c, temperature := t\<rparr>) \<and>
    register_value env1 0x0F 0x10 c \<and> register_value env2 0x00 0x04 t"
proof -
  obtain c where c: "seesaw_read_16 env1 ADAFRUIT_SENSOR_ADDR 0x0F 0x10 = Some c" "register_value env1 0x0F 0x10 c"
    using seesaw_register[OF assms(1)] by blast
  obtain t where t: "seesaw_read_16 env2 ADAFRUIT_SENSOR_ADDR 0x00 0x04 = Some t" "register_value env2 0x00 0x04 t"
    using seesaw_register[OF assms(2)] by blast
  show ?thesis
    using c t by (intro exI[of _ c] exI[of _ t]) (simp add: sense_listen_handler_def REG_CAPACITANCE_BASE_def
        REG_CAPACITANCE_FUNC_def REG_STATUS_BASE_def REG_STATUS_TEMP_FUNC_def)
qed

theorem sensor_reading_witness:
  "\<exists>c t. sense_listen_handler (bus_bytes 2 5) bus_broken (zero_ctx\<lparr>capacitance := 9\<rparr>) =
      Some (None, zero_ctx\<lparr>cprev := 9, tprev := 0, capacitance := c, temperature := t\<rparr>) \<and> unat c = 517 \<and> t = 0xFFFF"
  using sensor_reading[OF bus_ok(1) bus_ok(2), of 2 5 "zero_ctx\<lparr>capacitance := 9\<rparr>"]
  by (auto simp: register_value_def bus_bytes_def bus_broken_def zero_ctx_def)

text \<open>
  The sensor counts as initialised exactly when the bus runs at the configured rate;
  otherwise the handler returns a nonzero code, which is no \<open>DT_ERR_E\<close> but the length of
  the warning it printed.
\<close>

theorem sense_init_guard:
  "sense_init_handler env ctx =
     (if i2c_init_baud env = 100000 then (0, ctx\<lparr>sense_initd := True\<rparr>)
      else (int (length (baud_warning (i2c_init_baud env))), ctx)) \<and>
   12 < int (length (baud_warning act))"
  by (simp add: sense_init_handler_def sensor_init_def Let_def baud_warning_def BAUDRATE_def)

end
