(* ===== verification/Basicio.thy ===== *)
theory Basicio
  imports Ctx
begin

text \<open>
  Model of \<open>src/basicio/basicio.c\<close>: the status LED, which blinks while the device hosts its
  access point, and the reset button, which has to be held for three seconds. The clock
  and the pins are parameters.
\<close>

definition RESET_BUTTON_MS :: int where "RESET_BUTTON_MS = 3000"
definition BLINK_INTERVAL_AP_MODE_MS :: int where "BLINK_INTERVAL_AP_MODE_MS = 1000"
definition RESET_BUTTON_PIN :: nat where "RESET_BUTTON_PIN = 16"

datatype gpio_call = Gpio_init nat | Gpio_set_dir_in nat | Led_put bool

text \<open>
  The clock readings in the order the handler takes them, the difference of two times in
  microseconds, and the level of the button pin (low when pressed).
\<close>

record io_env =
  t_blink :: u64
  t_blink_set :: u64
  t_pressed :: u64
  t_held :: u64
  io_diff_us :: "u64 \<Rightarrow> u64 \<Rightarrow> int"
  button_level :: bool

text \<open>
  Both handlers are declared to return a \<open>DT_ERR_E\<close> and have no return statement: the first
  component of a result is the value returned, \<open>None\<close> for none. The main loop drops it.
\<close>

definition basicio_init_handler :: "app_ctx \<Rightarrow> int option \<times> app_ctx \<times> gpio_call list" where
  "basicio_init_handler ctx =
     (None, ctx, [Gpio_init RESET_BUTTON_PIN, Gpio_set_dir_in RESET_BUTTON_PIN])"

definition handle_blink :: "io_env \<Rightarrow> app_ctx \<Rightarrow> app_ctx \<times> gpio_call list" where
  "handle_blink env ctx =
     (if loop_state ctx = WIFI_CONFIG \<and>
         io_diff_us env (blink_ts ctx) (t_blink env) > BLINK_INTERVAL_AP_MODE_MS * 1000
      then (if blink_on ctx
            then (ctx\<lparr>blink_on := False, blink_ts := t_blink_set env\<rparr>, [Led_put False])
            else (ctx\<lparr>blink_on := True, blink_ts := t_blink_set env\<rparr>, [Led_put True]))
      else (ctx, []))"

definition handle_reset_btn :: "io_env \<Rightarrow> app_ctx \<Rightarrow> app_ctx" where
  "handle_reset_btn env ctx =
     (if \<not> button_level env
      then (let ctx1 = (if \<not> reset_pressed ctx
                        then ctx\<lparr>reset_pressed := True, reset_pressed_ts := t_pressed env\<rparr> else ctx)
            in if io_diff_us env (reset_pressed_ts ctx1) (t_held env) > RESET_BUTTON_MS * 1000
               then ctx1\<lparr>reset := True\<rparr> else ctx1)
      else ctx\<lparr>reset_pressed := False\<rparr>)"

definition basicio_listen_handler :: "io_env \<Rightarrow> app_ctx \<Rightarrow> int option \<times> app_ctx \<times> gpio_call list" where
  "basicio_listen_handler env ctx =
     (let (ctx1, calls) = handle_blink env ctx
      in (None, handle_reset_btn env ctx1, calls))"

fun io_run :: "io_env list \<Rightarrow> app_ctx \<Rightarrow> app_ctx" where
  "io_run [] ctx = ctx"
| "io_run (env # envs) ctx = io_run envs (fst (snd (basicio_listen_handler env ctx)))"

section \<open>Lemmas\<close>

lemma handle_blink_frame:
  "reset (fst (handle_blink env ctx)) = reset ctx"
  "reset_pressed (fst (handle_blink env ctx)) = reset_pressed ctx"
  "reset_pressed_ts (fst (handle_blink env ctx)) = reset_pressed_ts ctx"
  "loop_state (fst (handle_blink env ctx)) = loop_state ctx"
  by (simp_all add: handle_blink_def)

lemma listen_ctx: "fst (snd (basicio_listen_handler env ctx)) = handle_reset_btn env (fst (handle_blink env ctx))"
  by (simp add: basicio_listen_handler_def split: prod.splits)

text \<open>The button state after a run in which every poll saw it pressed.\<close>

lemma pressed_keeps_start:
  "reset_pressed ctx \<Longrightarrow> \<forall>e \<in> set envs. \<not> button_level e \<Longrightarrow>
   reset_pressed (io_run envs ctx) \<and> reset_pressed_ts (io_run envs ctx) = reset_pressed_ts ctx"
  by (induction envs arbitrary: ctx)
    (auto simp: listen_ctx handle_reset_btn_def handle_blink_frame Let_def)

section \<open>Properties\<close>

lemma io_run_snoc: "io_run (envs @ [e]) ctx = handle_reset_btn e (fst (handle_blink e (io_run envs ctx)))"
  by (induction envs arbitrary: ctx) (simp_all add: listen_ctx)

text \<open>While the button counts as pressed, it has been low in every poll since the recorded time.\<close>

lemma pressed_since:
  assumes "\<not> reset_pressed ctx" "reset_pressed (io_run envs ctx)"
  shows "\<exists>pre mid. envs = pre @ mid \<and> mid \<noteq> [] \<and> (\<forall>e \<in> set mid. \<not> button_level e) \<and>
    reset_pressed_ts (io_run envs ctx) = t_pressed (hd mid)"
  using assms(2)
proof (induction envs rule: rev_induct)
  case Nil
  with assms(1) show ?case by simp
next
  case (snoc e envs)
  let ?c = "io_run envs ctx"
  have low: "\<not> button_level e" using snoc.prems by (auto simp: io_run_snoc handle_reset_btn_def)
  show ?case
  proof (cases "reset_pressed ?c")
    case True
    then obtain pre mid where "envs = pre @ mid" "mid \<noteq> []" "\<forall>e \<in> set mid. \<not> button_level e"
      "reset_pressed_ts ?c = t_pressed (hd mid)" using snoc.IH by blast
    moreover have "reset_pressed_ts (io_run (envs @ [e]) ctx) = reset_pressed_ts ?c"
      using True low by (simp add: io_run_snoc handle_reset_btn_def handle_blink_frame Let_def)
    ultimately show ?thesis using low
      by (intro exI[of _ pre] exI[of _ "mid @ [e]"]) auto
  next
    case False
    then have "reset_pressed_ts (io_run (envs @ [e]) ctx) = t_pressed e"
      using low by (simp add: io_run_snoc handle_reset_btn_def handle_blink_frame Let_def)
    then show ?thesis using low by (intro exI[of _ envs] exI[of _ "[e]"]) auto
  qed
qed

text \<open>
  C40 (reset_needs_hold). A reset is requested only after the button was low at every poll of a stretch that lasted
  more than three seconds.
\<close>

theorem reset_needs_hold:
  assumes "\<not> reset ctx" "\<not> reset_pressed ctx" "reset (io_run envs ctx)"
  shows "\<exists>pre mid post. envs = pre @ mid @ post \<and> mid \<noteq> [] \<and> (\<forall>e \<in> set mid. \<not> button_level e) \<and>
    io_diff_us (last mid) (t_pressed (hd mid)) (t_held (last mid)) > 3000000"
  using assms(3)
proof (induction envs rule: rev_induct)
  case Nil
  with assms(1) show ?case by simp
next
  case (snoc e envs)
  show ?case
  proof (cases "reset (io_run envs ctx)")
    case True
    with snoc.IH obtain pre mid post where "envs = pre @ mid @ post" "mid \<noteq> []" "\<forall>e \<in> set mid. \<not> button_level e"
      "io_diff_us (last mid) (t_pressed (hd mid)) (t_held (last mid)) > 3000000" by blast
    then show ?thesis by (intro exI[of _ pre] exI[of _ mid] exI[of _ "post @ [e]"]) simp
  next
    case False
    let ?c = "io_run (envs @ [e]) ctx"
    have "reset_pressed ?c" "io_diff_us e (reset_pressed_ts ?c) (t_held e) > 3000000"
      using snoc.prems False
      by (auto simp: io_run_snoc handle_reset_btn_def handle_blink_frame Let_def RESET_BUTTON_MS_def split: if_splits)
    moreover from pressed_since[OF assms(2) this(1)] obtain pre mid where
      m: "envs @ [e] = pre @ mid" "mid \<noteq> []" "\<forall>e \<in> set mid. \<not> button_level e" "reset_pressed_ts ?c = t_pressed (hd mid)" by blast
    moreover have "last mid = e" using m(1,2) by (metis last_appendR last_snoc)
    ultimately show ?thesis by (intro exI[of _ pre] exI[of _ mid] exI[of _ "[]"]) simp
  qed
qed

definition held :: "u64 \<Rightarrow> io_env" where
  "held us = \<lparr>t_blink = us, t_blink_set = us, t_pressed = us, t_held = us,
     io_diff_us = (\<lambda>a b. uint b - uint a), button_level = False\<rparr>"

theorem reset_needs_hold_witness:
  "reset (io_run [held 0, held 2000000, held 3000001] zero_ctx) \<and>
   (\<exists>pre mid post. [held 0, held 2000000, held 3000001] = pre @ mid @ post \<and> mid \<noteq> [] \<and>
     io_diff_us (last mid) (t_pressed (hd mid)) (t_held (last mid)) > 3000000)"
proof -
  have r: "reset (io_run [held 0, held 2000000, held 3000001] zero_ctx)"
    by (simp add: listen_ctx handle_reset_btn_def handle_blink_def held_def zero_ctx_def RESET_BUTTON_MS_def Let_def)
  have "\<not> reset zero_ctx" "\<not> reset_pressed zero_ctx" by (simp_all add: zero_ctx_def)
  from reset_needs_hold[OF this r] r show ?thesis by blast
qed

text \<open>
  And holding it that long is enough.
\<close>

theorem reset_after_hold:
  assumes "\<not> reset_pressed ctx" "envs \<noteq> []" "\<forall>e \<in> set envs. \<not> button_level e"
    and "io_diff_us (last envs) (t_pressed (hd envs)) (t_held (last envs)) > 3000000"
  shows "reset (io_run envs ctx)"
proof -
  obtain e es where "envs = e # es" using assms(2) by (cases envs) auto
  have p: "reset_pressed_ts (handle_reset_btn e (fst (handle_blink e ctx))) = t_pressed e"
    "reset_pressed (handle_reset_btn e (fst (handle_blink e ctx)))"
    using assms(1,3) \<open>envs = e # es\<close> by (simp_all add: handle_reset_btn_def handle_blink_frame Let_def)
  show ?thesis
  proof (cases es rule: rev_cases)
    case Nil
    with assms \<open>envs = e # es\<close> show ?thesis
      by (simp add: listen_ctx handle_reset_btn_def handle_blink_frame Let_def RESET_BUTTON_MS_def)
  next
    case (snoc xs x)
    have "reset_pressed (io_run (e # xs) ctx) \<and> reset_pressed_ts (io_run (e # xs) ctx) = t_pressed e"
      using pressed_keeps_start[OF p(2), of xs] assms(3) \<open>envs = e # es\<close> snoc p(1) by (simp add: listen_ctx)
    moreover have "envs = (e # xs) @ [x]" using \<open>envs = e # es\<close> snoc by simp
    ultimately show ?thesis
      using assms(3,4) by (simp only: io_run_snoc) (simp add: handle_reset_btn_def handle_blink_frame Let_def RESET_BUTTON_MS_def)
  qed
qed

theorem reset_after_hold_witness: "reset (io_run [held 5, held 3000006] zero_ctx)"
  by (rule reset_after_hold) (simp_all add: held_def zero_ctx_def)

end
