(* ===== verification/Dhcp.thy ===== *)
theory Dhcp
  imports Lwip
begin

text \<open>
  Model of \<open>src/access_point/dhcpserver.c\<close>: the DHCP server of the setup access point, with
  its table of eight leases. A request arrives as the bytes of a packet; the result is the
  new lease table and the datagram sent, if any. The clock, the packet-buffer accessors,
  the socket results and the uninitialised stack bytes of the message buffer are
  parameters.
\<close>

named_theorems dhcp_simps \<open>messages, options and leases\<close>

definition DHCPS_BASE_IP :: nat where "DHCPS_BASE_IP = 16"
definition DHCPS_MAX_IP :: nat where "DHCPS_MAX_IP = 8"
definition MAC_LEN :: nat where "MAC_LEN = 6"
definition DEFAULT_LEASE_TIME_S :: nat where "DEFAULT_LEASE_TIME_S = 24 * 60 * 60"
definition DHCP_MIN_SIZE :: nat where "DHCP_MIN_SIZE = 240 + 3"
definition PORT_DHCP_SERVER :: nat where "PORT_DHCP_SERVER = 67"
definition PORT_DHCP_CLIENT :: nat where "PORT_DHCP_CLIENT = 68"

definition DHCPDISCOVER :: u8 where "DHCPDISCOVER = 1"
definition DHCPOFFER :: u8 where "DHCPOFFER = 2"
definition DHCPREQUEST :: u8 where "DHCPREQUEST = 3"
definition DHCPACK :: u8 where "DHCPACK = 5"

definition DHCP_OPT_SUBNET_MASK :: u8 where "DHCP_OPT_SUBNET_MASK = 1"
definition DHCP_OPT_ROUTER :: u8 where "DHCP_OPT_ROUTER = 3"
definition DHCP_OPT_DNS :: u8 where "DHCP_OPT_DNS = 6"
definition DHCP_OPT_REQUESTED_IP :: u8 where "DHCP_OPT_REQUESTED_IP = 50"
definition DHCP_OPT_IP_LEASE_TIME :: u8 where "DHCP_OPT_IP_LEASE_TIME = 51"
definition DHCP_OPT_MSG_TYPE :: u8 where "DHCP_OPT_MSG_TYPE = 53"
definition DHCP_OPT_SERVER_ID :: u8 where "DHCP_OPT_SERVER_ID = 54"
definition DHCP_OPT_END :: u8 where "DHCP_OPT_END = 255"

lemmas dhcp_consts = DHCPS_BASE_IP_def DHCPS_MAX_IP_def MAC_LEN_def DHCP_MIN_SIZE_def
  DEFAULT_LEASE_TIME_S_def
  DHCPDISCOVER_def DHCPOFFER_def DHCPREQUEST_def DHCPACK_def DHCP_OPT_SUBNET_MASK_def
  DHCP_OPT_ROUTER_def DHCP_OPT_DNS_def DHCP_OPT_REQUESTED_IP_def DHCP_OPT_IP_LEASE_TIME_def
  DHCP_OPT_MSG_TYPE_def DHCP_OPT_SERVER_ID_def DHCP_OPT_END_def

section \<open>State\<close>

record lease =
  lease_mac :: "u8 list"
  lease_expiry :: u16

text \<open>Addresses are their four bytes in memory (network) order; \<open>dhcp_udp\<close>: the socket exists.\<close>

record dhcp_server =
  dhcp_ip :: "u8 list"
  dhcp_nm :: "u8 list"
  dhcp_lease :: "lease list"
  dhcp_udp :: bool

definition zero_mac :: "u8 list" where "zero_mac = replicate 6 0"

definition dhcp_wf :: "dhcp_server \<Rightarrow> bool" where
  "dhcp_wf d \<longleftrightarrow> length (dhcp_ip d) = 4 \<and> length (dhcp_nm d) = 4 \<and>
     length (dhcp_lease d) = DHCPS_MAX_IP \<and> (\<forall>l \<in> set (dhcp_lease d). length (lease_mac l) = MAC_LEN)"

section \<open>Messages\<close>

text \<open>
  The structure \<open>dhcp_msg_t\<close>: its members with their sizes, in the order of its declaration. Every
  member lies at a multiple of its alignment, so the layout has no padding.
\<close>

datatype dhcp_member =
    M_op | M_htype | M_hlen | M_hops | M_xid | M_secs | M_flags | M_ciaddr | M_yiaddr | M_siaddr
  | M_giaddr | M_chaddr | M_sname | M_file | M_options

definition dhcp_msg_layout :: "(dhcp_member \<times> nat) list" where
  "dhcp_msg_layout =
     [(M_op, 1), (M_htype, 1), (M_hlen, 1), (M_hops, 1), (M_xid, 4), (M_secs, 2), (M_flags, 2),
      (M_ciaddr, 4), (M_yiaddr, 4), (M_siaddr, 4), (M_giaddr, 4), (M_chaddr, 16), (M_sname, 64),
      (M_file, 128), (M_options, 312)]"

definition sizeof_dhcp_msg :: nat where "sizeof_dhcp_msg = sum_list (map snd dhcp_msg_layout)"

text \<open>
  A message is the memory of the structure: packets are copied into it and out of it as they are,
  and a member is the range of bytes at its offset.
\<close>

type_synonym dhcp_msg = "u8 list"

fun offset_in :: "(dhcp_member \<times> nat) list \<Rightarrow> dhcp_member \<Rightarrow> nat" where
  "offset_in [] f = 0"
| "offset_in ((g, n) # l) f = (if g = f then 0 else n + offset_in l f)"

definition offset_of :: "dhcp_member \<Rightarrow> nat" where
  "offset_of f = offset_in dhcp_msg_layout f"

definition sizeof_member :: "dhcp_member \<Rightarrow> nat" where
  "sizeof_member f = (case map_of dhcp_msg_layout f of Some n \<Rightarrow> n | None \<Rightarrow> 0)"

definition field :: "u8 list \<Rightarrow> nat \<Rightarrow> nat \<Rightarrow> u8 list" where
  "field b off n = take n (drop off b)"

definition member_bytes :: "dhcp_msg \<Rightarrow> dhcp_member \<Rightarrow> u8 list" where
  "member_bytes m f = field m (offset_of f) (sizeof_member f)"

definition msg_yiaddr :: "dhcp_msg \<Rightarrow> u8 list" where "msg_yiaddr m = member_bytes m M_yiaddr"
definition msg_chaddr :: "dhcp_msg \<Rightarrow> u8 list" where "msg_chaddr m = member_bytes m M_chaddr"
definition msg_options :: "dhcp_msg \<Rightarrow> u8 list" where "msg_options m = member_bytes m M_options"

definition msg_wf :: "dhcp_msg \<Rightarrow> bool" where
  "msg_wf m \<longleftrightarrow> length m = sizeof_dhcp_msg"

lemma sizeof_dhcp_msg_eq: "sizeof_dhcp_msg = 548"
  by (simp add: sizeof_dhcp_msg_def dhcp_msg_layout_def)

lemma member_offsets:
  "offset_of M_op = 0" "offset_of M_yiaddr = 16" "offset_of M_chaddr = 28" "offset_of M_options = 236"
  by (simp_all add: offset_of_def dhcp_msg_layout_def)

lemma member_ranges:
  "msg_yiaddr m = field m 16 4" "msg_chaddr m = field m 28 16" "msg_options m = field m 236 312"
  by (simp_all add: msg_yiaddr_def msg_chaddr_def msg_options_def member_bytes_def member_offsets
      sizeof_member_def dhcp_msg_layout_def)

section \<open>Options\<close>

text \<open>
  \<open>opts\<close> is the option area after the magic cookie, up to the end of the structure; the
  code's bound 308 is its size. The result is the index of the option found; the outer
  \<open>None\<close> is a read outside the structure.
\<close>

function opt_find_from :: "u8 list \<Rightarrow> u8 \<Rightarrow> nat \<Rightarrow> nat option option" where
  "opt_find_from opts cmd i =
     (if i < 308 then do {
        b \<leftarrow> rd opts i;
        if b = DHCP_OPT_END then Some None
        else if b = cmd then Some (Some i)
        else do { l \<leftarrow> rd opts (i + 1); opt_find_from opts cmd (i + (2 + unat l)) }
      } else Some None)"
  by pat_completeness auto
termination
  by (relation "measure (\<lambda>(opts, cmd, i). 308 - i)") auto

declare opt_find_from.simps [simp del]

definition opt_find :: "u8 list \<Rightarrow> u8 \<Rightarrow> nat option option" where
  "opt_find opts cmd = opt_find_from opts cmd 0"

text \<open>The writers advance a position in the option area.\<close>

definition opt_write_n :: "u8 list \<times> nat \<Rightarrow> u8 \<Rightarrow> nat \<Rightarrow> u8 list \<Rightarrow> (u8 list \<times> nat) option" where
  "opt_write_n op cmd n data = do {
     let (opts, o1) = op;
     opts1 \<leftarrow> wr opts o1 cmd;
     opts2 \<leftarrow> wr opts1 (o1 + 1) (of_nat n);
     src \<leftarrow> rd_bytes data 0 n;
     opts3 \<leftarrow> blit opts2 (o1 + 2) src;
     Some (opts3, o1 + 2 + n)
   }"

definition opt_write_u8 :: "u8 list \<times> nat \<Rightarrow> u8 \<Rightarrow> u8 \<Rightarrow> (u8 list \<times> nat) option" where
  "opt_write_u8 op cmd val = do {
     let (opts, o1) = op;
     opts1 \<leftarrow> wr opts o1 cmd;
     opts2 \<leftarrow> wr opts1 (o1 + 1) 1;
     opts3 \<leftarrow> wr opts2 (o1 + 2) val;
     Some (opts3, o1 + 3)
   }"

definition opt_write_u32 :: "u8 list \<times> nat \<Rightarrow> u8 \<Rightarrow> u32 \<Rightarrow> (u8 list \<times> nat) option" where
  "opt_write_u32 op cmd val = do {
     let (opts, o1) = op;
     opts1 \<leftarrow> wr opts o1 cmd;
     opts2 \<leftarrow> wr opts1 (o1 + 1) 4;
     opts3 \<leftarrow> wr opts2 (o1 + 2) (ucast (drop_bit 24 val));
     opts4 \<leftarrow> wr opts3 (o1 + 3) (ucast (drop_bit 16 val));
     opts5 \<leftarrow> wr opts4 (o1 + 4) (ucast (drop_bit 8 val));
     opts6 \<leftarrow> wr opts5 (o1 + 5) (ucast val);
     Some (opts6, o1 + 6)
   }"

section \<open>Sockets\<close>

record dhcp_env =
  ticks_ms :: "nat \<Rightarrow> u32"  \<comment> \<open>cyw43_hal_ticks_ms, at its i-th call\<close>
  stack_bytes :: "u8 list"
  dhcp_pbuf_alloc :: bool
  dhcp_send_err :: lwip_err
  dhcp_udp_new :: bool
  dhcp_bind_err :: lwip_err

datatype sock_result = Sock_ok nat | Sock_ENOMEM | Sock_lwip lwip_err

text \<open>A datagram handed to lwIP: destination address, port, payload.\<close>

type_synonym datagram = "u8 list \<times> nat \<times> u8 list"

definition dhcp_socket_new_dgram :: "dhcp_env \<Rightarrow> bool \<times> sock_result" where
  "dhcp_socket_new_dgram env = (if dhcp_udp_new env then (True, Sock_ok 0) else (False, Sock_ENOMEM))"

definition dhcp_socket_bind :: "dhcp_env \<Rightarrow> lwip_err" where
  "dhcp_socket_bind env = dhcp_bind_err env"

definition dhcp_socket_free :: "bool \<Rightarrow> bool" where
  "dhcp_socket_free udp = False"

definition dhcp_socket_sendto ::
  "dhcp_env \<Rightarrow> u8 list \<Rightarrow> nat \<Rightarrow> u32 \<Rightarrow> nat \<Rightarrow> (sock_result \<times> datagram list) option" where
  "dhcp_socket_sendto env buf len ip port =
     (let len = (if len > 0xffff then 0xffff else len)
      in if \<not> dhcp_pbuf_alloc env then Some (Sock_ENOMEM, [])
         else do {
           payload \<leftarrow> rd_bytes buf 0 len;
           let dest = [ucast (drop_bit 24 ip AND 0xff), ucast (drop_bit 16 ip AND 0xff),
                       ucast (drop_bit 8 ip AND 0xff), ucast (ip AND 0xff)];
           Some (if dhcp_send_err env \<noteq> ERR_OK then Sock_lwip (dhcp_send_err env) else Sock_ok len,
                 [(dest, port, payload)])
         })"

section \<open>Leases\<close>

definition expiry32 :: "lease \<Rightarrow> u32" where
  "expiry32 l = push_bit 16 (ucast (lease_expiry l)) OR 0xffff"

definition expired :: "u32 \<Rightarrow> lease \<Rightarrow> bool" where
  "expired now l \<longleftrightarrow> sint (expiry32 l - now) < 0"

text \<open>
  The loop of DHCPDISCOVER from slot \<open>i\<close> on; \<open>yi\<close> is the slot chosen so far,
  \<open>DHCPS_MAX_IP\<close> for none. The result holds the slots from \<open>i\<close> on and the final choice.
\<close>

fun discover_scan :: "(nat \<Rightarrow> u32) \<Rightarrow> u8 list \<Rightarrow> nat \<Rightarrow> nat \<Rightarrow> lease list \<Rightarrow> lease list \<times> nat" where
  "discover_scan now mac i yi [] = ([], yi)"
| "discover_scan now mac i yi (l # ls) =
     (if lease_mac l = mac then (l # ls, i)
      else if yi = DHCPS_MAX_IP then
        (let yi1 = (if lease_mac l = zero_mac then i else yi);
             (l', yi2) = (if expired (now i) l then (l\<lparr>lease_mac := zero_mac\<rparr>, i) else (l, yi1));
             (ls', yi') = discover_scan now mac (i + 1) yi2 ls
         in (l' # ls', yi'))
      else (let (ls', yi') = discover_scan now mac (i + 1) yi ls in (l # ls', yi')))"

text \<open>
  The two branches of the switch that answer: the lease table and, unless the request is
  ignored, the last byte of the address and the message type of the reply.
\<close>

definition dhcp_discover :: "dhcp_env \<Rightarrow> dhcp_server \<Rightarrow> u8 list \<Rightarrow> dhcp_server \<times> (nat \<times> u8) option" where
  "dhcp_discover env d mac =
     (let (ls, yi) = discover_scan (ticks_ms env) mac 0 DHCPS_MAX_IP (dhcp_lease d);
          d' = d\<lparr>dhcp_lease := ls\<rparr>
      in if yi = DHCPS_MAX_IP then (d', None) else (d', Some (yi, DHCPOFFER)))"

definition new_expiry :: "u32 \<Rightarrow> u16" where
  "new_expiry now = ucast (drop_bit 16 (now + of_nat (DEFAULT_LEASE_TIME_S * 1000)))"

definition dhcp_request ::
  "dhcp_env \<Rightarrow> dhcp_server \<Rightarrow> u8 list \<Rightarrow> u8 list \<Rightarrow> (dhcp_server \<times> (nat \<times> u8) option) option" where
  "dhcp_request env d mac opts = do {
     found \<leftarrow> opt_find opts DHCP_OPT_REQUESTED_IP;
     case found of
       None \<Rightarrow> Some (d, None)
     | Some oi \<Rightarrow> do {
         net \<leftarrow> rd_bytes opts (oi + 2) 3;
         if net \<noteq> take 3 (dhcp_ip d) then Some (d, None)
         else do {
           host \<leftarrow> rd opts (oi + 5);
           let yi = unat (host - of_nat DHCPS_BASE_IP :: u8);
           if yi \<ge> DHCPS_MAX_IP then Some (d, None)
           else (let l = dhcp_lease d ! yi
                 in if lease_mac l = mac \<or> lease_mac l = zero_mac
                    then Some (d\<lparr>dhcp_lease := (dhcp_lease d)[yi :=
                                  \<lparr>lease_mac = mac, lease_expiry = new_expiry (ticks_ms env 0)\<rparr>]\<rparr>,
                               Some (yi, DHCPACK))
                    else Some (d, None))
         }
       }
   }"

section \<open>Processing a packet\<close>

text \<open>The reply options, written over the received ones.\<close>

definition reply_options :: "dhcp_server \<Rightarrow> u8 \<Rightarrow> u8 list \<Rightarrow> (u8 list \<times> nat) option" where
  "reply_options d mtype opts = do {
     op1 \<leftarrow> opt_write_u8 (opts, 0) DHCP_OPT_MSG_TYPE mtype;
     op2 \<leftarrow> opt_write_n op1 DHCP_OPT_SERVER_ID 4 (dhcp_ip d);
     op3 \<leftarrow> opt_write_n op2 DHCP_OPT_SUBNET_MASK 4 (dhcp_nm d);
     op4 \<leftarrow> opt_write_n op3 DHCP_OPT_ROUTER 4 (dhcp_ip d);
     op5 \<leftarrow> opt_write_n op4 DHCP_OPT_DNS 4 (dhcp_ip d);
     (opts6, o6) \<leftarrow> opt_write_u32 op5 DHCP_OPT_IP_LEASE_TIME (of_nat DEFAULT_LEASE_TIME_S);
     opts7 \<leftarrow> wr opts6 o6 DHCP_OPT_END;
     Some (opts7, o6 + 1)
   }"

text \<open>The message as it is sent, from the received one with \<open>op\<close> and \<open>yiaddr\<close> already set.\<close>

definition dhcp_reply ::
  "dhcp_env \<Rightarrow> dhcp_server \<Rightarrow> dhcp_msg \<Rightarrow> nat \<Rightarrow> u8 \<Rightarrow> datagram list option" where
  "dhcp_reply env d m yi mtype = do {
     m1 \<leftarrow> wr m (offset_of M_yiaddr + 3) (of_nat DHCPS_BASE_IP + of_nat yi);
     (opts, pos) \<leftarrow> reply_options d mtype (drop 4 (msg_options m1));
     m2 \<leftarrow> blit m1 (offset_of M_options + 4) opts;
     (_, sent) \<leftarrow> dhcp_socket_sendto env m2 (offset_of M_options + 4 + pos) 0xffffffff PORT_DHCP_CLIENT;
     Some sent
   }"

definition dhcp_server_process ::
  "dhcp_env \<Rightarrow> pbuf_ops \<Rightarrow> dhcp_server \<Rightarrow> u8 list \<Rightarrow> (dhcp_server \<times> datagram list) option" where
  "dhcp_server_process env ops d p =
     (if length p < DHCP_MIN_SIZE then Some (d, [])
      else (let data = pbuf_copy ops p sizeof_dhcp_msg 0
            in if length data < DHCP_MIN_SIZE then Some (d, [])
               else do {
                 raw \<leftarrow> blit (stack_bytes env) 0 data;
                 m1 \<leftarrow> wr raw (offset_of M_op) DHCPOFFER;
                 m \<leftarrow> blit m1 (offset_of M_yiaddr) (dhcp_ip d);
                 let opts = drop 4 (msg_options m);
                 let mac = take MAC_LEN (msg_chaddr m);
                 msgtype \<leftarrow> opt_find opts DHCP_OPT_MSG_TYPE;
                 case msgtype of
                   None \<Rightarrow> Some (d, [])
                 | Some mi \<Rightarrow> do {
                     mtype \<leftarrow> rd opts (mi + 2);
                     (d', answer) \<leftarrow>
                       (if mtype = DHCPDISCOVER then Some (dhcp_discover env d mac)
                        else if mtype = DHCPREQUEST then dhcp_request env d mac opts
                        else Some (d, None));
                     case answer of
                       None \<Rightarrow> Some (d', [])
                     | Some (yi, rtype) \<Rightarrow> do {
                         sent \<leftarrow> dhcp_reply env d' m yi rtype;
                         Some (d', sent)
                       }
                   }
               }))"

section \<open>Starting and stopping\<close>

definition zero_lease :: lease where
  "zero_lease = \<lparr>lease_mac = zero_mac, lease_expiry = 0\<rparr>"

text \<open>
  The second component is the result of the bind, if one was made; the code drops it.
\<close>

definition dhcp_server_init :: "dhcp_env \<Rightarrow> u8 list \<Rightarrow> u8 list \<Rightarrow> dhcp_server \<times> lwip_err option" where
  "dhcp_server_init env ip nm =
     (let (udp, r) = dhcp_socket_new_dgram env;
          d = \<lparr>dhcp_ip = ip, dhcp_nm = nm, dhcp_lease = replicate DHCPS_MAX_IP zero_lease, dhcp_udp = udp\<rparr>
      in if r \<noteq> Sock_ok 0 then (d, None) else (d, Some (dhcp_socket_bind env)))"

definition dhcp_server_deinit :: "dhcp_server \<Rightarrow> dhcp_server" where
  "dhcp_server_deinit d = d\<lparr>dhcp_udp := dhcp_socket_free (dhcp_udp d)\<rparr>"

section \<open>The choice of an address\<close>

definition available :: "u32 \<Rightarrow> lease \<Rightarrow> bool" where
  "available now l \<longleftrightarrow> lease_mac l = zero_mac \<or> expired now l"

fun first_own :: "u8 list \<Rightarrow> nat \<Rightarrow> lease list \<Rightarrow> nat option" where
  "first_own mac i [] = None"
| "first_own mac i (l # ls) = (if lease_mac l = mac then Some i else first_own mac (i + 1) ls)"

fun first_available :: "(nat \<Rightarrow> u32) \<Rightarrow> nat \<Rightarrow> lease list \<Rightarrow> nat option" where
  "first_available now i [] = None"
| "first_available now i (l # ls) = (if available (now i) l then Some i else first_available now (i + 1) ls)"

text \<open>The client's own slot, else the first one free or expired, else none (\<open>DHCPS_MAX_IP\<close>).\<close>

definition discover_choice :: "(nat \<Rightarrow> u32) \<Rightarrow> u8 list \<Rightarrow> lease list \<Rightarrow> nat" where
  "discover_choice now mac ls =
     (case first_own mac 0 ls of Some j \<Rightarrow> j
      | None \<Rightarrow> (case first_available now 0 ls of Some j \<Rightarrow> j | None \<Rightarrow> DHCPS_MAX_IP))"

text \<open>One step of the scan, with the slot's fate and the running choice read off.\<close>

definition scanned :: "u32 \<Rightarrow> nat \<Rightarrow> lease \<Rightarrow> lease" where
  "scanned now yi l = (if yi = DHCPS_MAX_IP \<and> expired now l then l\<lparr>lease_mac := zero_mac\<rparr> else l)"

lemma scan_Cons:
  "lease_mac l \<noteq> mac \<Longrightarrow> discover_scan now mac i yi (l # ls) =
     (let y = if yi = DHCPS_MAX_IP \<and> available (now i) l then i else yi;
          r = discover_scan now mac (i + 1) y ls
      in (scanned (now i) yi l # fst r, snd r))"
  by (auto simp: Let_def available_def scanned_def case_prod_beta)

declare discover_scan.simps(2) [simp del]

lemma scan_own: "lease_mac l = mac \<Longrightarrow> discover_scan now mac i yi (l # ls) = (l # ls, i)"
  by (simp add: discover_scan.simps(2))

lemma scan_choice:
  "i + length ls \<le> DHCPS_MAX_IP \<Longrightarrow>
   snd (discover_scan now mac i yi ls) =
     (case first_own mac i ls of Some j \<Rightarrow> j
      | None \<Rightarrow> if yi = DHCPS_MAX_IP
                then (case first_available now i ls of Some j \<Rightarrow> j | None \<Rightarrow> DHCPS_MAX_IP) else yi)"
proof (induction ls arbitrary: i yi)
  case (Cons l ls)
  then have i: "i \<noteq> DHCPS_MAX_IP" "Suc i + length ls \<le> DHCPS_MAX_IP" by simp_all
  show ?case
    using Cons.IH[of "Suc i"] i
    by (cases "lease_mac l = mac") (auto simp: scan_own scan_Cons Let_def split: option.splits)
qed simp

text \<open>What the scan does to the slots: nothing, but for clearing the owner of an expired one.\<close>

definition slot_kept :: "u32 \<Rightarrow> u8 list \<Rightarrow> lease \<Rightarrow> lease \<Rightarrow> bool" where
  "slot_kept now mac l l' \<longleftrightarrow>
     l' = l \<or> expired now l \<and> lease_mac l \<noteq> mac \<and> l' = l\<lparr>lease_mac := zero_mac\<rparr>"

lemma scan_slots:
  "length (fst (discover_scan now mac i yi ls)) = length ls \<and>
   (\<forall>j < length ls. slot_kept (now (i + j)) mac (ls ! j) (fst (discover_scan now mac i yi ls) ! j))"
proof (induction ls arbitrary: i yi)
  case (Cons l ls)
  have step: "length (l' # fst (discover_scan now mac (i + 1) y ls)) = length (l # ls) \<and>
      (\<forall>j < length (l # ls). slot_kept (now (i + j)) mac ((l # ls) ! j)
         ((l' # fst (discover_scan now mac (i + 1) y ls)) ! j))"
    if "slot_kept (now i) mac l l'" for l' y
  proof -
    have "slot_kept (now (i + j)) mac ((l # ls) ! j) ((l' # fst (discover_scan now mac (i + 1) y ls)) ! j)"
      if "j < length (l # ls)" for j
      using that \<open>slot_kept (now i) mac l l'\<close> Cons.IH[of "i + 1" y] by (cases j) auto
    then show ?thesis using Cons.IH[of "i + 1" y] by simp
  qed
  show ?case
  proof (cases "lease_mac l = mac")
    case True
    then show ?thesis by (simp add: slot_kept_def scan_own)
  next
    case False
    then have "\<exists>l' y. slot_kept (now i) mac l l' \<and>
        fst (discover_scan now mac i yi (l # ls)) = l' # fst (discover_scan now mac (i + 1) y ls)"
      by (auto simp: Let_def slot_kept_def scan_Cons scanned_def)
    then obtain l' y where "slot_kept (now i) mac l l'"
      "fst (discover_scan now mac i yi (l # ls)) = l' # fst (discover_scan now mac (i + 1) y ls)" by blast
    with step[of l' y] show ?thesis by simp
  qed
qed simp

lemma scan_chosen_slot:
  "i + length ls \<le> DHCPS_MAX_IP \<Longrightarrow> yi = DHCPS_MAX_IP \<Longrightarrow>
   discover_scan now mac i yi ls = (ls', k) \<Longrightarrow> k \<noteq> DHCPS_MAX_IP \<Longrightarrow>
   i \<le> k \<and> k < i + length ls \<and> (lease_mac (ls' ! (k - i)) = mac \<or> lease_mac (ls' ! (k - i)) = zero_mac)"
proof (induction ls arbitrary: i ls')
  case (Cons l ls)
  let ?avail = "available (now i) l"
  show ?case
  proof (cases "lease_mac l = mac")
    case True
    with Cons.prems show ?thesis by (auto simp: scan_own)
  next
    case False
    have i: "i \<noteq> DHCPS_MAX_IP" "i + 1 + length ls \<le> DHCPS_MAX_IP" using Cons.prems(1) by simp_all
    show ?thesis
    proof (cases ?avail)
      case True
      then obtain l' ls2 where s: "ls' = l' # ls2" "lease_mac l' = zero_mac"
        "discover_scan now mac (i + 1) i ls = (ls2, k)"
        using Cons.prems(2,3) False
        by (cases "discover_scan now mac (i + 1) i ls") (auto simp: Let_def scan_Cons scanned_def available_def)
      have k: "k = (case first_own mac (i + 1) ls of Some j \<Rightarrow> j | None \<Rightarrow> i)"
        using scan_choice[OF i(2), of now mac i] s(3) i(1) by simp
      show ?thesis
      proof (cases "first_own mac (i + 1) ls")
        case None
        with k s show ?thesis by simp
      next
        case (Some j)
        have own: "first_own mac n xs = Some j \<Longrightarrow> n \<le> j \<and> j < n + length xs \<and> lease_mac (xs ! (j - n)) = mac" for n xs
        proof (induction xs arbitrary: n)
          case (Cons x xs)
          then show ?case by (fastforce split: if_splits simp: nth_Cons' Suc_le_eq)
        qed simp
        from own[OF Some] k Some have j: "i + 1 \<le> k" "k < i + 1 + length ls" "lease_mac (ls ! (k - (i + 1))) = mac"
          by auto
        have "slot_kept (now (i + 1 + (k - (i + 1)))) mac (ls ! (k - (i + 1))) (ls2 ! (k - (i + 1)))"
          using scan_slots[of now mac "i + 1" i ls, THEN conjunct2, rule_format, of "k - (i + 1)"] s(3) j
          by (simp del: One_nat_def)
        then have "lease_mac (ls2 ! (k - (i + 1))) = mac" using j(3) by (simp add: slot_kept_def)
        with j s show ?thesis by (auto simp: nth_Cons')
      qed
    next
      case False2: False
      with Cons.prems(2,3) False obtain ls2 where s: "ls' = l # ls2"
        "discover_scan now mac (i + 1) DHCPS_MAX_IP ls = (ls2, k)"
        by (cases "discover_scan now mac (i + 1) DHCPS_MAX_IP ls")
           (auto simp: Let_def scan_Cons scanned_def available_def)
      from Cons.IH[OF i(2) Cons.prems(2) s(2)[folded Cons.prems(2)] Cons.prems(4)] s(1) show ?thesis by (auto simp: nth_Cons')
    qed
  qed
qed auto

lemma discover_offers:
  assumes "dhcp_wf d" "dhcp_discover env d mac = (d', Some (yi, t))"
  shows "yi < DHCPS_MAX_IP \<and> t = DHCPOFFER \<and> yi = discover_choice (ticks_ms env) mac (dhcp_lease d) \<and>
    (lease_mac (dhcp_lease d' ! yi) = mac \<or> lease_mac (dhcp_lease d' ! yi) = zero_mac)"
proof -
  obtain ls k where s: "discover_scan (ticks_ms env) mac 0 DHCPS_MAX_IP (dhcp_lease d) = (ls, k)" by fastforce
  have len: "0 + length (dhcp_lease d) \<le> DHCPS_MAX_IP" "length (dhcp_lease d) = DHCPS_MAX_IP"
    using assms(1) by (simp_all add: dhcp_wf_def)
  from s assms(2) have k: "k \<noteq> DHCPS_MAX_IP" "yi = k" "t = DHCPOFFER" "dhcp_lease d' = ls"
    by (auto simp: dhcp_discover_def Let_def split: if_splits)
  from scan_chosen_slot[OF len(1) refl s k(1)] k len(2)
  have "k < DHCPS_MAX_IP" "lease_mac (ls ! k) = mac \<or> lease_mac (ls ! k) = zero_mac" by auto
  moreover have "k = discover_choice (ticks_ms env) mac (dhcp_lease d)"
    using scan_choice[OF len(1), of "ticks_ms env" mac DHCPS_MAX_IP] s by (simp add: discover_choice_def)
  ultimately show ?thesis using k by simp
qed

lemma discover_frame:
  assumes "dhcp_discover env d mac = (d', a)"
  shows "dhcp_ip d' = dhcp_ip d \<and> dhcp_nm d' = dhcp_nm d \<and> length (dhcp_lease d') = length (dhcp_lease d) \<and>
    (\<forall>j < length (dhcp_lease d). slot_kept (ticks_ms env j) mac (dhcp_lease d ! j) (dhcp_lease d' ! j))"
  using assms scan_slots[of "ticks_ms env" mac 0 DHCPS_MAX_IP "dhcp_lease d"]
  by (auto simp: dhcp_discover_def Let_def split: prod.splits if_splits)

lemma discover_wf:
  assumes "dhcp_wf d" "dhcp_discover env d mac = (d', a)"
  shows "dhcp_wf d'"
proof -
  note f = discover_frame[OF assms(2)]
  have "length (lease_mac l) = MAC_LEN" if l: "l \<in> set (dhcp_lease d')" for l
  proof -
    from l obtain j where j: "j < length (dhcp_lease d')" "l = dhcp_lease d' ! j" by (auto simp: in_set_conv_nth)
    with f assms(1) show ?thesis
      by (auto simp: slot_kept_def dhcp_wf_def zero_mac_def MAC_LEN_def)
  qed
  with f assms(1) show ?thesis by (simp add: dhcp_wf_def)
qed

section \<open>Granting a request\<close>

lemma request_frame:
  assumes "dhcp_request env d mac opts = Some (d', a)"
  shows "(a = None \<and> d' = d) \<or>
    (\<exists>yi. a = Some (yi, DHCPACK) \<and> yi < DHCPS_MAX_IP \<and>
       (lease_mac (dhcp_lease d ! yi) = mac \<or> lease_mac (dhcp_lease d ! yi) = zero_mac) \<and>
       d' = d\<lparr>dhcp_lease := (dhcp_lease d)[yi := \<lparr>lease_mac = mac, lease_expiry = new_expiry (ticks_ms env 0)\<rparr>]\<rparr>)"
  using assms unfolding dhcp_request_def
  by (auto simp: bind_eq_Some_conv Let_def split: option.splits if_splits)

lemma request_wf:
  assumes "dhcp_wf d" "length mac = MAC_LEN" "dhcp_request env d mac opts = Some (d', a)"
  shows "dhcp_wf d'"
  using request_frame[OF assms(3)] assms(1,2) by (auto simp: dhcp_wf_def dest!: set_update_subset_insert[THEN subsetD])

text \<open>The address of slot \<open>yi\<close>, and an option area that requests it.\<close>

definition slot_addr :: "dhcp_server \<Rightarrow> nat \<Rightarrow> u8 list" where
  "slot_addr d yi = take 3 (dhcp_ip d) @ [of_nat (DHCPS_BASE_IP + yi)]"

definition requests_addr :: "u8 list \<Rightarrow> u8 list \<Rightarrow> bool" where
  "requests_addr opts a \<longleftrightarrow> (\<exists>oi. opt_find opts DHCP_OPT_REQUESTED_IP = Some (Some oi) \<and>
     rd_bytes opts (oi + 2) 4 = Some a)"

lemma request_granted:
  assumes wf: "dhcp_wf d" and yi: "yi < DHCPS_MAX_IP" and r: "requests_addr opts (slot_addr d yi)"
    and free: "lease_mac (dhcp_lease d ! yi) = mac \<or> lease_mac (dhcp_lease d ! yi) = zero_mac"
  shows "\<exists>d'. dhcp_request env d mac opts = Some (d', Some (yi, DHCPACK)) \<and> lease_mac (dhcp_lease d' ! yi) = mac"
proof -
  from r obtain oi where oi: "opt_find opts DHCP_OPT_REQUESTED_IP = Some (Some oi)"
    "rd_bytes opts (oi + 2) 4 = Some (slot_addr d yi)" by (auto simp: requests_addr_def)
  then have len: "oi + 6 \<le> length opts" and b: "take 4 (drop (oi + 2) opts) = slot_addr d yi"
    by (auto simp: rd_bytes_def split: if_splits)
  have ip: "length (dhcp_ip d) = 4" using wf by (simp add: dhcp_wf_def)
  have "take 3 (drop (oi + 2) opts) = take 3 (take 4 (drop (oi + 2) opts))" by simp
  also have "\<dots> = take 3 (dhcp_ip d)" unfolding b using ip by (simp add: slot_addr_def)
  finally have net: "rd_bytes opts (oi + 2) 3 = Some (take 3 (dhcp_ip d))" using len by (simp add: rd_bytes_def)
  have "opts ! (oi + 5) = take 4 (drop (oi + 2) opts) ! 3" using len by (simp add: add.commute)
  also have "\<dots> = of_nat (DHCPS_BASE_IP + yi)" unfolding b using ip by (simp add: slot_addr_def nth_append)
  finally have host: "rd opts (oi + 5) = Some (of_nat (DHCPS_BASE_IP + yi))" using len by (simp add: rd_def)
  have u: "unat (of_nat (DHCPS_BASE_IP + yi) - of_nat DHCPS_BASE_IP :: u8) = yi"
    using yi by (simp add: DHCPS_MAX_IP_def unsigned_of_nat take_bit_nat_eq_self)
  have l: "yi < length (dhcp_lease d)" using wf yi by (simp add: dhcp_wf_def)
  show ?thesis using oi(1) net host u yi free l by (simp add: dhcp_request_def Let_def)
qed

section \<open>The options of a reply\<close>

lemma opt_write_n_append:
  assumes "length A = n0" "length data = n" "n + 2 \<le> length B"
  shows "opt_write_n (A @ B, n0) cmd n data = Some (A @ [cmd, of_nat n] @ data @ drop (n + 2) B, n0 + 2 + n)"
proof -
  obtain x y B' where B: "B = x # y # B'" using assms(3) by (cases B; cases "tl B") auto
  have "blit (A @ cmd # of_nat n # B') (n0 + 2) data = Some (A @ [cmd, of_nat n] @ data @ drop n B')"
    using blit_append[of "A @ [cmd, of_nat n]" "n0 + 2" data B'] assms B by simp
  then show ?thesis
    using assms B by (simp add: opt_write_n_def wr_def list_update_append rd_bytes_def)
qed

lemma opt_write_u8_append:
  assumes "length A = n0" "3 \<le> length B"
  shows "opt_write_u8 (A @ B, n0) cmd v = Some (A @ [cmd, 1, v] @ drop 3 B, n0 + 3)"
proof -
  obtain x y z B' where "B = x # y # z # B'" using assms(2) by (cases B; cases "tl B"; cases "tl (tl B)") auto
  then show ?thesis using assms by (simp add: opt_write_u8_def wr_def list_update_append)
qed

definition be32_bytes :: "u32 \<Rightarrow> u8 list" where
  "be32_bytes v = [ucast (drop_bit 24 v), ucast (drop_bit 16 v), ucast (drop_bit 8 v), ucast v]"

lemma opt_write_u32_append:
  assumes "length A = n0" "6 \<le> length B"
  shows "opt_write_u32 (A @ B, n0) cmd v = Some (A @ [cmd, 4] @ be32_bytes v @ drop 6 B, n0 + 6)"
proof -
  have "Suc (Suc (Suc (Suc (Suc (Suc 0))))) \<le> length B" using assms(2) by simp
  then obtain a b c d e f B' where "B = a # b # c # d # e # f # B'" by (auto simp: Suc_le_length_iff)
  then show ?thesis using assms by (simp add: opt_write_u32_def wr_def list_update_append be32_bytes_def)
qed

definition reply_option_bytes :: "dhcp_server \<Rightarrow> u8 \<Rightarrow> u8 list" where
  "reply_option_bytes d mtype =
     [53, 1, mtype] @ [54, 4] @ dhcp_ip d @ [1, 4] @ dhcp_nm d @ [3, 4] @ dhcp_ip d @
     [6, 4] @ dhcp_ip d @ [51, 4] @ be32_bytes 86400 @ [255]"

lemma reply_options_bytes:
  assumes "dhcp_wf d" "length opts = 308"
  shows "reply_options d mtype opts = Some (reply_option_bytes d mtype @ drop 34 opts, 34)"
proof -
  have ip: "length (dhcp_ip d) = 4" "length (dhcp_nm d) = 4" using assms(1) by (simp_all add: dhcp_wf_def)
  have w8: "opt_write_u8 (opts, 0) 53 mtype = Some ([53, 1, mtype] @ drop 3 opts, 3)"
    using opt_write_u8_append[of "[]" 0 opts] assms(2) by simp
  have w1: "opt_write_n ([53, 1, mtype] @ drop 3 opts, 3) 54 4 (dhcp_ip d) =
      Some (([53, 1, mtype] @ [54, 4] @ dhcp_ip d) @ drop 9 opts, 9)"
    using opt_write_n_append[of "[53, 1, mtype]" 3 "dhcp_ip d" 4 "drop 3 opts" 54] ip assms(2) by simp
  have w2: "opt_write_n (([53, 1, mtype] @ [54, 4] @ dhcp_ip d) @ drop 9 opts, 9) 1 4 (dhcp_nm d) =
      Some (([53, 1, mtype] @ [54, 4] @ dhcp_ip d @ [1, 4] @ dhcp_nm d) @ drop 15 opts, 15)"
    using opt_write_n_append[of "[53, 1, mtype] @ [54, 4] @ dhcp_ip d" 9 "dhcp_nm d" 4 "drop 9 opts" 1] ip assms(2) by simp
  have w3: "opt_write_n (([53, 1, mtype] @ [54, 4] @ dhcp_ip d @ [1, 4] @ dhcp_nm d) @ drop 15 opts, 15) 3 4 (dhcp_ip d) =
      Some (([53, 1, mtype] @ [54, 4] @ dhcp_ip d @ [1, 4] @ dhcp_nm d @ [3, 4] @ dhcp_ip d) @ drop 21 opts, 21)"
    using opt_write_n_append[of "[53, 1, mtype] @ [54, 4] @ dhcp_ip d @ [1, 4] @ dhcp_nm d" 15 "dhcp_ip d" 4 "drop 15 opts" 3]
      ip assms(2) by simp
  let ?A = "[53, 1, mtype] @ [54, 4] @ dhcp_ip d @ [1, 4] @ dhcp_nm d @ [3, 4] @ dhcp_ip d"
  have w4: "opt_write_n (?A @ drop 21 opts, 21) 6 4 (dhcp_ip d) = Some ((?A @ [6, 4] @ dhcp_ip d) @ drop 27 opts, 27)"
    using opt_write_n_append[of ?A 21 "dhcp_ip d" 4 "drop 21 opts" 6] ip assms(2) by simp
  have w5: "opt_write_u32 ((?A @ [6, 4] @ dhcp_ip d) @ drop 27 opts, 27) 51 86400 =
      Some ((?A @ [6, 4] @ dhcp_ip d @ [51, 4] @ be32_bytes 86400) @ drop 33 opts, 33)"
    using opt_write_u32_append[of "?A @ [6, 4] @ dhcp_ip d" 27 "drop 27 opts" 51 86400] ip assms(2) by simp
  have "length (drop 33 opts) = 275" using assms(2) by simp
  then obtain x where x: "drop 33 opts = x # drop 34 opts"
    by (cases "drop 33 opts") (auto simp: drop_Suc[symmetric] tl_drop dest: arg_cong[of _ _ tl])
  have w6: "wr (P @ x # R) 33 255 = Some (P @ 255 # R)" if "length P = 33" for P R :: "u8 list" and x
    using that by (simp add: wr_def list_update_append)
  have len: "length (?A @ [6, 4] @ dhcp_ip d @ [51, 4] @ be32_bytes 86400) = 33" using ip by (simp add: be32_bytes_def)
  note w7 = w6[OF len, of x "drop 34 opts", folded x]
  show ?thesis
    unfolding reply_options_def dhcp_consts
    by (simp only: w8 Option.bind.simps w1 w2 w3 w4 prod.case) (use w5 w7 in \<open>simp add: reply_option_bytes_def\<close>)
qed

lemma reply_option_bytes_length: "dhcp_wf d \<Longrightarrow> length (reply_option_bytes d mtype) = 34"
  by (simp add: reply_option_bytes_def dhcp_wf_def be32_bytes_def)

section \<open>The expiry of a lease\<close>

lemma expiry32_eq:
  "lease_expiry l = ucast (drop_bit 16 x) \<Longrightarrow> expiry32 l = x + (0xffff - (x AND 0xffff))" for x :: u32
proof -
  assume e: "lease_expiry l = ucast (drop_bit 16 x)"
  have ffff: "0xffff = (mask 16 :: u32)" by (simp add: mask_eq_exp_minus_1)
  have "expiry32 l = x OR 0xffff"
    unfolding expiry32_def e
    unfolding ffff by (rule bit_word_eqI) (auto simp: bit_simps)
  also have "\<dots> = x + 0xffff - (x AND 0xffff)"
    using word_plus_and_or[of x "0xffff"] by (simp add: algebra_simps)
  finally show ?thesis by simp
qed

text \<open>A lease granted at time \<open>now\<close> is good for 24 hours and at most 65.5 seconds more.\<close>

lemma lease_valid_time:
  fixes now :: u32
  assumes "lease_expiry l = new_expiry now"
  shows "t \<le> 86400000 \<Longrightarrow> \<not> expired (now + of_nat t) l"
    and "86400000 + 0xffff < t \<Longrightarrow> t \<le> 2 ^ 31 \<Longrightarrow> expired (now + of_nat t) l"
proof -
  define x where "x = now + 86400000"
  define e where "e = 0xffff - unat (x AND 0xffff)"
  have low: "unat (x AND 0xffff) \<le> 0xffff" using word_and_le1[of x "0xffff"] by (simp add: word_le_nat_alt)
  have "expiry32 l = x + (0xffff - (x AND 0xffff))"
    using expiry32_eq[of l x] assms by (simp add: new_expiry_def x_def DEFAULT_LEASE_TIME_S_def)
  also have "0xffff - (x AND 0xffff) = of_nat e"
    using low by (simp add: e_def of_nat_diff)
  finally have d: "expiry32 l - (now + of_nat t) = of_int (86400000 + int e - int t)"
    by (simp add: x_def)
  have e: "e \<le> 0xffff" by (simp add: e_def)
  have s: "sint (of_int z :: u32) = z" if "- (2 ^ 31) \<le> z" "z < 2 ^ 31" for z
    using that by (simp add: signed_of_int signed_take_bit_int_eq_self)
  show "\<not> expired (now + of_nat t) l" if "t \<le> 86400000"
    unfolding expired_def d using that e by (subst s) auto
  show "expired (now + of_nat t) l" if "86400000 + 0xffff < t" "t \<le> 2 ^ 31"
    unfolding expired_def d using that e by (subst s) auto
qed

section \<open>The parts of a message\<close>

lemma msg_parts:
  assumes "msg_wf m"
  obtains A y B c opts where "m = A @ y @ B @ c @ opts" "length A = 16" "length y = 4" "length B = 216"
    "length c = 4" "length opts = 308"
proof
  have l: "length m = 548" using assms by (simp add: msg_wf_def sizeof_dhcp_msg_eq)
  have "drop 16 m = field m 16 4 @ drop 20 m" "drop 20 m = field m 20 216 @ drop 236 m"
    "drop 236 m = field m 236 4 @ drop 240 m"
    using append_take_drop_id[of 4 "drop 16 m"] append_take_drop_id[of 216 "drop 20 m"]
      append_take_drop_id[of 4 "drop 236 m"] by (simp_all add: field_def)
  then show "m = take 16 m @ field m 16 4 @ field m 20 216 @ field m 236 4 @ drop 240 m"
    using append_take_drop_id[of 16 m] by simp
  show "length (take 16 m) = 16" "length (field m 16 4) = 4" "length (field m 20 216) = 216"
    "length (field m 236 4) = 4" "length (drop 240 m) = 308" using l by (simp_all add: field_def)
qed

section \<open>The reply\<close>

lemma sendto_bytes:
  assumes "len \<le> length buf" "len \<le> 0xffff"
  shows "dhcp_socket_sendto env buf len 0xffffffff PORT_DHCP_CLIENT =
    Some (if dhcp_pbuf_alloc env
          then (if dhcp_send_err env \<noteq> ERR_OK then Sock_lwip (dhcp_send_err env) else Sock_ok len,
                [([255, 255, 255, 255], 68, take len buf)])
          else (Sock_ENOMEM, []))"
  using assms by (auto simp: dhcp_socket_sendto_def rd_bytes_def PORT_DHCP_CLIENT_def Let_def)

text \<open>
  The reply carries the header of the request with \<open>op\<close> and \<open>yiaddr\<close> replaced, the
  request's cookie and the seven options, 274 bytes in all.
\<close>

definition reply_header :: "dhcp_msg \<Rightarrow> u8 list \<Rightarrow> u8 list" where
  "reply_header m yiaddr = take 16 m @ yiaddr @ field m 20 216"

lemma dhcp_reply_bytes:
  assumes "dhcp_wf d" "msg_wf m"
  shows "dhcp_reply env d m yi t =
    Some (if dhcp_pbuf_alloc env
          then [([255, 255, 255, 255], 68,
                 reply_header m ((msg_yiaddr m)[3 := of_nat DHCPS_BASE_IP + of_nat yi]) @
                 take 4 (msg_options m) @ reply_option_bytes d t)]
          else [])"
proof -
  obtain A y B c opts where m: "m = A @ y @ B @ c @ opts"
    and l: "length A = 16" "length y = 4" "length B = 216" "length c = 4" "length opts = 308"
    using assms(2) by (rule msg_parts)
  let ?y = "y[3 := of_nat DHCPS_BASE_IP + of_nat yi]"
  let ?R = "reply_option_bytes d t @ drop 34 opts"
  have w: "wr m 19 (of_nat DHCPS_BASE_IP + of_nat yi) = Some (A @ ?y @ B @ c @ opts)"
    using l by (simp add: m wr_def list_update_append)
  have o: "reply_options d t opts = Some (?R, 34)" by (rule reply_options_bytes[OF assms(1) l(5)])
  have R: "length ?R = 308" using reply_option_bytes_length[OF assms(1)] l by simp
  have b: "blit (A @ ?y @ B @ c @ opts) 240 ?R = Some (A @ ?y @ B @ c @ ?R)"
    using blit_append[of "A @ ?y @ B @ c" 240 ?R opts] R l by simp
  have f: "msg_options (A @ ?y @ B @ c @ opts) = c @ opts" "msg_options m = c @ opts" "msg_yiaddr m = y"
    "reply_header m ?y = A @ ?y @ B"
    using l by (simp_all add: member_ranges field_def reply_header_def m)
  show ?thesis
    unfolding dhcp_reply_def member_offsets f
    using l R by (simp add: w f o b sendto_bytes reply_option_bytes_length[OF assms(1)])
qed

section \<open>Searching well-formed options\<close>

text \<open>An option area as a list of codes and values.\<close>

type_synonym tlvs = "(u8 \<times> u8 list) list"

fun tlv_bytes :: "tlvs \<Rightarrow> u8 list" where
  "tlv_bytes [] = []"
| "tlv_bytes ((c, v) # os) = c # of_nat (length v) # v @ tlv_bytes os"

fun find_tlv :: "tlvs \<Rightarrow> u8 \<Rightarrow> nat \<Rightarrow> nat option" where
  "find_tlv [] cmd i = None"
| "find_tlv ((c, v) # os) cmd i = (if c = cmd then Some i else find_tlv os cmd (i + (2 + length v)))"

definition tlvs_ok :: "tlvs \<Rightarrow> bool" where
  "tlvs_ok os \<longleftrightarrow> (\<forall>(c, v) \<in> set os. c \<noteq> DHCP_OPT_END \<and> length v \<le> 255) \<and> length (tlv_bytes os) < 308"

lemma opt_find_from_tlv:
  assumes "\<forall>(c, v) \<in> set os. c \<noteq> DHCP_OPT_END \<and> length v \<le> 255"
    and "length A + length (tlv_bytes os) < 308"
  shows "opt_find_from (A @ tlv_bytes os @ DHCP_OPT_END # R) cmd (length A) = Some (find_tlv os cmd (length A))"
  using assms
proof (induction os arbitrary: A)
  case Nil
  then show ?case by (subst opt_find_from.simps) (simp add: rd_def)
next
  case (Cons o1 os)
  obtain c v where o1: "o1 = (c, v)" by fastforce
  with Cons.prems have cv: "c \<noteq> DHCP_OPT_END" "length v \<le> 255" by auto
  have n: "unat (of_nat (length v) :: u8) = length v"
    using cv(2) by (simp add: unsigned_of_nat take_bit_nat_eq_self)
  let ?A = "A @ c # of_nat (length v) # v"
  have "length ?A + length (tlv_bytes os) < 308" using Cons.prems(2) by (simp add: o1)
  with Cons.IH[of ?A] Cons.prems(1) have IH:
    "opt_find_from (A @ tlv_bytes (o1 # os) @ DHCP_OPT_END # R) cmd (length A + (2 + length v)) =
     Some (find_tlv os cmd (length A + (2 + length v)))" by (simp add: o1)
  then show ?case
    using Cons.prems(2) cv n by (subst opt_find_from.simps) (simp add: o1 rd_def nth_append)
qed

lemma opt_find_tlv:
  "tlvs_ok os \<Longrightarrow> opt_find (tlv_bytes os @ DHCP_OPT_END # R) cmd = Some (find_tlv os cmd 0)"
  using opt_find_from_tlv[of os "[]" R cmd] by (simp add: tlvs_ok_def opt_find_def)

text \<open>The options of a reply, and what a client's search in them finds.\<close>

definition reply_tlvs :: "dhcp_server \<Rightarrow> u8 \<Rightarrow> tlvs" where
  "reply_tlvs d t = [(53, [t]), (54, dhcp_ip d), (1, dhcp_nm d), (3, dhcp_ip d), (6, dhcp_ip d), (51, be32_bytes 86400)]"

lemma reply_tlvs_bytes: "dhcp_wf d \<Longrightarrow> reply_option_bytes d t = tlv_bytes (reply_tlvs d t) @ [DHCP_OPT_END]"
  by (simp add: reply_option_bytes_def reply_tlvs_def dhcp_wf_def be32_bytes_def DHCP_OPT_END_def)

lemma reply_tlvs_ok: "dhcp_wf d \<Longrightarrow> tlvs_ok (reply_tlvs d t)"
  by (simp add: tlvs_ok_def reply_tlvs_def dhcp_wf_def be32_bytes_def DHCP_OPT_END_def)

section \<open>Whole packets\<close>

text \<open>
  A packet with a header of 236 bytes, the magic cookie and well-formed options; the
  message the server sees, its option area and the client's hardware address.
\<close>

definition seen_msg :: "dhcp_env \<Rightarrow> dhcp_server \<Rightarrow> u8 list \<Rightarrow> dhcp_msg" where
  "seen_msg env d p =
     (let b = p @ drop (length p) (stack_bytes env)
      in DHCPOFFER # field b 1 15 @ dhcp_ip d @ drop 20 b)"

definition client_mac :: "u8 list \<Rightarrow> u8 list" where
  "client_mac p = field p 28 6"

definition packet_ok :: "u8 list \<Rightarrow> bool" where
  "packet_ok p \<longleftrightarrow> DHCP_MIN_SIZE \<le> length p \<and> length p \<le> sizeof_dhcp_msg"

definition stack_ok :: "dhcp_env \<Rightarrow> bool" where
  "stack_ok env \<longleftrightarrow> length (stack_bytes env) = sizeof_dhcp_msg"

lemma seen_msg_facts:
  assumes "packet_ok p" "stack_ok env" "dhcp_wf d"
  shows "msg_wf (seen_msg env d p)"
    and "take MAC_LEN (msg_chaddr (seen_msg env d p)) = client_mac p"
    and "drop 4 (msg_options (seen_msg env d p)) = drop 240 p @ drop (length p) (stack_bytes env)"
    and "length (client_mac p) = MAC_LEN"
    and "msg_yiaddr (seen_msg env d p) = dhcp_ip d"
proof -
  have l: "243 \<le> length p" "length p \<le> 548" "length (stack_bytes env) = 548" "length (dhcp_ip d) = 4"
    using assms by (simp_all add: packet_ok_def stack_ok_def sizeof_dhcp_msg_eq DHCP_MIN_SIZE_def dhcp_wf_def)
  show "msg_wf (seen_msg env d p)"
    using l by (simp add: seen_msg_def msg_wf_def field_def sizeof_dhcp_msg_eq)
  show "take MAC_LEN (msg_chaddr (seen_msg env d p)) = client_mac p"
    using l by (simp add: seen_msg_def member_ranges field_def client_mac_def MAC_LEN_def)
  show "drop 4 (msg_options (seen_msg env d p)) = drop 240 p @ drop (length p) (stack_bytes env)"
    using l by (simp add: seen_msg_def member_ranges field_def)
  show "length (client_mac p) = MAC_LEN" using l by (simp add: client_mac_def field_def MAC_LEN_def)
  show "msg_yiaddr (seen_msg env d p) = dhcp_ip d" using l by (simp add: seen_msg_def member_ranges field_def)
qed

lemma seen_msg_memory:
  assumes "packet_ok p" "stack_ok env" "dhcp_wf d"
  shows "do {
     raw \<leftarrow> blit (stack_bytes env) 0 p;
     m1 \<leftarrow> wr raw (offset_of M_op) DHCPOFFER;
     blit m1 (offset_of M_yiaddr) (dhcp_ip d)
   } = Some (seen_msg env d p)"
proof -
  have l: "243 \<le> length p" "length p \<le> 548" "length (stack_bytes env) = 548" "length (dhcp_ip d) = 4"
    using assms by (simp_all add: packet_ok_def stack_ok_def sizeof_dhcp_msg_eq DHCP_MIN_SIZE_def dhcp_wf_def)
  let ?b = "p @ drop (length p) (stack_bytes env)"
  have b: "blit (stack_bytes env) 0 p = Some ?b" using l by (simp add: blit_0)
  have len: "length ?b = 548" using l by simp
  then obtain x r where xr: "?b = x # r" "length r = 547" by (cases ?b) auto
  have "r = take 15 r @ take 4 (drop 15 r) @ drop 19 r"
    using append_take_drop_id[of 15 r] append_take_drop_id[of 4 "drop 15 r"] by simp
  with xr have r: "DHCPOFFER # r = (DHCPOFFER # take 15 r) @ take 4 (drop 15 r) @ drop 19 r" by simp
  have "blit (DHCPOFFER # r) 16 (dhcp_ip d) = Some ((DHCPOFFER # take 15 r) @ dhcp_ip d @ drop 4 (take 4 (drop 15 r) @ drop 19 r))"
    unfolding r using blit_append[of "DHCPOFFER # take 15 r" 16 "dhcp_ip d" "take 4 (drop 15 r) @ drop 19 r"] xr(2) l by simp
  then show ?thesis
    using xr by (simp add: b wr_def member_offsets seen_msg_def field_def)
qed

lemma process_packet:
  assumes "pbuf_ops_ok ops" "packet_ok p" "stack_ok env" "dhcp_wf d"
  shows "dhcp_server_process env ops d p = do {
     let opts = drop 240 p @ drop (length p) (stack_bytes env);
     msgtype \<leftarrow> opt_find opts DHCP_OPT_MSG_TYPE;
     case msgtype of
       None \<Rightarrow> Some (d, [])
     | Some mi \<Rightarrow> do {
         mtype \<leftarrow> rd opts (mi + 2);
         (d', answer) \<leftarrow>
           (if mtype = DHCPDISCOVER then Some (dhcp_discover env d (client_mac p))
            else if mtype = DHCPREQUEST then dhcp_request env d (client_mac p) opts
            else Some (d, None));
         case answer of
           None \<Rightarrow> Some (d', [])
         | Some (yi, rtype) \<Rightarrow> do {
             sent \<leftarrow> dhcp_reply env d' (seen_msg env d p) yi rtype;
             Some (d', sent)
           }
       }
   }"
proof -
  note f = seen_msg_facts[OF assms(2,3,4)]
  have c: "pbuf_copy ops p sizeof_dhcp_msg 0 = p"
    using assms(1,2) by (simp add: pbuf_ops_okD(2) packet_ok_def)
  obtain raw m1 where b: "blit (stack_bytes env) 0 p = Some raw" "wr raw (offset_of M_op) DHCPOFFER = Some m1"
    "blit m1 (offset_of M_yiaddr) (dhcp_ip d) = Some (seen_msg env d p)"
    using seen_msg_memory[OF assms(2-4)] by (auto simp: bind_eq_Some_conv)
  show ?thesis
    using assms(2) by (simp add: dhcp_server_process_def c b packet_ok_def Let_def f(2,3) cong: if_cong)
qed

text \<open>A short packet is ignored, and of a long one only the part that fits the structure is seen.\<close>

lemma process_short: "length p < DHCP_MIN_SIZE \<Longrightarrow> dhcp_server_process env ops d p = Some (d, [])"
  by (simp add: dhcp_server_process_def)

lemma process_long:
  "pbuf_ops_ok ops \<Longrightarrow> sizeof_dhcp_msg < length p \<Longrightarrow>
   dhcp_server_process env ops d p = dhcp_server_process env ops d (take sizeof_dhcp_msg p)"
  by (simp add: dhcp_server_process_def pbuf_ops_okD(2) sizeof_dhcp_msg_eq DHCP_MIN_SIZE_def)

lemma process_wf:
  assumes "pbuf_ops_ok ops" "packet_ok p" "stack_ok env" "dhcp_wf d"
    and "dhcp_server_process env ops d p = Some (d', sent)"
  shows "dhcp_wf d'" and "dhcp_ip d' = dhcp_ip d" and "dhcp_nm d' = dhcp_nm d"
    and "j < DHCPS_MAX_IP \<Longrightarrow> lease_mac (dhcp_lease d ! j) \<noteq> client_mac p \<Longrightarrow>
      lease_mac (dhcp_lease d ! j) \<noteq> zero_mac \<Longrightarrow> \<not> expired (ticks_ms env j) (dhcp_lease d ! j) \<Longrightarrow>
      dhcp_lease d' ! j = dhcp_lease d ! j"
proof -
  let ?mac = "client_mac p" and ?opts = "drop 240 p @ drop (length p) (stack_bytes env)"
  have mac: "length ?mac = MAC_LEN" by (rule seen_msg_facts(4)[OF assms(2,3,4)])
  define branch where "branch mtype = (if mtype = DHCPDISCOVER then Some (dhcp_discover env d ?mac)
      else if mtype = DHCPREQUEST then dhcp_request env d ?mac ?opts else Some (d, None))" for mtype
  have "d' = d \<or> (\<exists>mtype a. branch mtype = Some (d', a))"
    using assms(5) unfolding process_packet[OF assms(1-4)] branch_def[symmetric] Let_def
    by (auto simp: bind_eq_Some_conv split: option.splits)
  then have "d' = d \<or> (\<exists>a. dhcp_discover env d ?mac = (d', a)) \<or>
      (\<exists>a. dhcp_request env d ?mac ?opts = Some (d', a))"
    by (auto simp: branch_def split: if_splits)
  then consider "d' = d" | a where "dhcp_discover env d ?mac = (d', a)"
    | a where "dhcp_request env d ?mac ?opts = Some (d', a)" by blast
  then have "dhcp_wf d' \<and> dhcp_ip d' = dhcp_ip d \<and> dhcp_nm d' = dhcp_nm d \<and>
      (j < DHCPS_MAX_IP \<longrightarrow> lease_mac (dhcp_lease d ! j) \<noteq> client_mac p \<longrightarrow>
       lease_mac (dhcp_lease d ! j) \<noteq> zero_mac \<longrightarrow> \<not> expired (ticks_ms env j) (dhcp_lease d ! j) \<longrightarrow>
       dhcp_lease d' ! j = dhcp_lease d ! j)" for j
  proof cases
    case 1
    with assms(4) show ?thesis by simp
  next
    case 2
    with discover_wf[OF assms(4) 2] discover_frame[OF 2] assms(4) show ?thesis
      by (auto simp: slot_kept_def dhcp_wf_def)
  next
    case 3
    with request_wf[OF assms(4) mac 3] request_frame[OF 3] show ?thesis
      by (auto intro!: nth_list_update_neq)
  qed
  then show "dhcp_wf d'" and "dhcp_ip d' = dhcp_ip d" and "dhcp_nm d' = dhcp_nm d"
    and "j < DHCPS_MAX_IP \<Longrightarrow> lease_mac (dhcp_lease d ! j) \<noteq> client_mac p \<Longrightarrow>
      lease_mac (dhcp_lease d ! j) \<noteq> zero_mac \<Longrightarrow> \<not> expired (ticks_ms env j) (dhcp_lease d ! j) \<Longrightarrow>
      dhcp_lease d' ! j = dhcp_lease d ! j" by blast+
qed

text \<open>A packet whose options are the given ones.\<close>

definition has_options :: "u8 list \<Rightarrow> tlvs \<Rightarrow> bool" where
  "has_options p os \<longleftrightarrow> (\<exists>R. drop 240 p = tlv_bytes os @ DHCP_OPT_END # R) \<and> tlvs_ok os"

lemma has_options_find:
  "has_options p os \<Longrightarrow> opt_find (drop 240 p @ R) cmd = Some (find_tlv os cmd 0)"
  unfolding has_options_def using opt_find_tlv[of os _ cmd] by fastforce

text \<open>The first option of the given code has the given value.\<close>

definition option_is :: "tlvs \<Rightarrow> u8 \<Rightarrow> u8 list \<Rightarrow> bool" where
  "option_is os cmd v \<longleftrightarrow> map_of os cmd = Some v"

lemma find_tlv_map_of:
  "map_of os cmd = Some v \<Longrightarrow> \<exists>A B. find_tlv os cmd i = Some (i + length A) \<and>
     tlv_bytes os = A @ cmd # of_nat (length v) # v @ B"
proof (induction os arbitrary: i)
  case (Cons o1 os)
  obtain c w where o1: "o1 = (c, w)" by fastforce
  show ?case
  proof (cases "c = cmd")
    case True
    with Cons.prems show ?thesis
      by (intro exI[of _ "[]"] exI[of _ "tlv_bytes os"]) (simp add: o1)
  next
    case False
    with Cons.prems Cons.IH[of "i + (2 + length w)"] obtain A B where
      "find_tlv os cmd (i + (2 + length w)) = Some (i + (2 + length w) + length A)"
      "tlv_bytes os = A @ cmd # of_nat (length v) # v @ B" by (auto simp: o1)
    with False show ?thesis
      by (intro exI[of _ "c # of_nat (length w) # w @ A"] exI[of _ B]) (simp add: o1)
  qed
qed simp

lemma has_option:
  assumes "has_options p os" "option_is os cmd v"
  shows "\<exists>i. opt_find (drop 240 p @ R) cmd = Some (Some i) \<and>
    rd_bytes (drop 240 p @ R) (i + 2) (length v) = Some v"
proof -
  from find_tlv_map_of[of os cmd v 0] assms(2) obtain A B where
    f: "find_tlv os cmd 0 = Some (length A)" "tlv_bytes os = A @ cmd # of_nat (length v) # v @ B"
    by (auto simp: option_is_def)
  from assms(1) obtain Q where "drop 240 p = tlv_bytes os @ DHCP_OPT_END # Q" by (auto simp: has_options_def)
  with f have "rd_bytes (drop 240 p @ R) (length A + 2) (length v) = Some v" by (simp add: rd_bytes_def)
  with f(1) has_options_find[OF assms(1), of R cmd] show ?thesis by auto
qed

lemma rd_bytes_1: "rd_bytes b i 1 = Some [x] \<Longrightarrow> rd b i = Some x"
  by (auto simp: rd_bytes_def rd_def take_Suc_conv_app_nth hd_drop_conv_nth split: if_splits)

lemma process_discover:
  assumes "pbuf_ops_ok ops" "packet_ok p" "stack_ok env" "dhcp_wf d"
    and "has_options p os" "option_is os DHCP_OPT_MSG_TYPE [DHCPDISCOVER]"
    and "dhcp_discover env d (client_mac p) = (d', a)"
  shows "dhcp_server_process env ops d p =
    (case a of None \<Rightarrow> Some (d', [])
     | Some (yi, t) \<Rightarrow> Some (d', if dhcp_pbuf_alloc env then
          [([255, 255, 255, 255], 68,
            reply_header (seen_msg env d p) ((dhcp_ip d)[3 := of_nat DHCPS_BASE_IP + of_nat yi]) @
            take 4 (msg_options (seen_msg env d p)) @ reply_option_bytes d' t)] else []))"
proof -
  let ?R = "drop (length p) (stack_bytes env)"
  obtain i where i: "opt_find (drop 240 p @ ?R) DHCP_OPT_MSG_TYPE = Some (Some i)"
    "rd_bytes (drop 240 p @ ?R) (i + 2) 1 = Some [DHCPDISCOVER]"
    using has_option[OF assms(5,6), of ?R] by auto
  note f = seen_msg_facts[OF assms(2,3,4)]
  show ?thesis
    using assms(7) i(1) rd_bytes_1[OF i(2)] f(5)
      dhcp_reply_bytes[OF discover_wf[OF assms(4,7)] f(1)]
    by (cases a) (auto simp: process_packet[OF assms(1-4)] Let_def)
qed

lemma process_request:
  assumes "pbuf_ops_ok ops" "packet_ok p" "stack_ok env" "dhcp_wf d"
    and "has_options p os" "option_is os DHCP_OPT_MSG_TYPE [DHCPREQUEST]"
    and "option_is os DHCP_OPT_REQUESTED_IP (slot_addr d yi)" "yi < DHCPS_MAX_IP"
    and "lease_mac (dhcp_lease d ! yi) = client_mac p \<or> lease_mac (dhcp_lease d ! yi) = zero_mac"
  shows "\<exists>d'. dhcp_server_process env ops d p =
     Some (d', if dhcp_pbuf_alloc env then
          [([255, 255, 255, 255], 68,
            reply_header (seen_msg env d p) ((dhcp_ip d)[3 := of_nat DHCPS_BASE_IP + of_nat yi]) @
            take 4 (msg_options (seen_msg env d p)) @ reply_option_bytes d DHCPACK)] else []) \<and>
     dhcp_lease d' = (dhcp_lease d)[yi := \<lparr>lease_mac = client_mac p, lease_expiry = new_expiry (ticks_ms env 0)\<rparr>]"
proof -
  let ?R = "drop (length p) (stack_bytes env)" and ?mac = "client_mac p"
  obtain i where i: "opt_find (drop 240 p @ ?R) DHCP_OPT_MSG_TYPE = Some (Some i)"
    "rd_bytes (drop 240 p @ ?R) (i + 2) 1 = Some [DHCPREQUEST]"
    using has_option[OF assms(5,6), of ?R] by auto
  note f = seen_msg_facts[OF assms(2,3,4)]
  have "length (slot_addr d yi) = 4" using assms(4) by (simp add: slot_addr_def dhcp_wf_def)
  then have "requests_addr (drop 240 p @ ?R) (slot_addr d yi)"
    using has_option[OF assms(5,7), of ?R] by (auto simp: requests_addr_def)
  from request_granted[OF assms(4,8) this assms(9), of env] obtain d' where
    d': "dhcp_request env d ?mac (drop 240 p @ ?R) = Some (d', Some (yi, DHCPACK))" by blast
  from request_frame[OF d'] have fr: "d' = d\<lparr>dhcp_lease := (dhcp_lease d)[yi := \<lparr>lease_mac = ?mac, lease_expiry = new_expiry (ticks_ms env 0)\<rparr>]\<rparr>"
    by auto
  have o: "reply_option_bytes d' DHCPACK = reply_option_bytes d DHCPACK" by (simp add: fr reply_option_bytes_def)
  have "DHCPREQUEST \<noteq> DHCPDISCOVER" by (simp add: DHCPREQUEST_def DHCPDISCOVER_def)
  then show ?thesis
    using d' i(1) rd_bytes_1[OF i(2)] f(5) o fr
      dhcp_reply_bytes[OF request_wf[OF assms(4) f(4) d'] f(1)]
    by (auto simp: process_packet[OF assms(1-4)] Let_def)
qed

section \<open>Properties\<close>

text \<open>A server with fresh leases, its environment, and requests a client sends.\<close>

definition fresh_server :: dhcp_server where
  "fresh_server = \<lparr>dhcp_ip = [192, 168, 4, 1], dhcp_nm = [255, 255, 255, 0],
     dhcp_lease = replicate 8 zero_lease, dhcp_udp = True\<rparr>"

definition dhcp_env_at :: "u32 \<Rightarrow> dhcp_env" where
  "dhcp_env_at ms = \<lparr>ticks_ms = (\<lambda>_. ms), stack_bytes = replicate 548 0, dhcp_pbuf_alloc = True,
     dhcp_send_err = ERR_OK, dhcp_udp_new = True, dhcp_bind_err = ERR_OK\<rparr>"

definition client_packet :: "u8 list \<Rightarrow> tlvs \<Rightarrow> u8 list" where
  "client_packet mac os = [1, 1, 6, 0] @ replicate 24 0 @ mac @ replicate 202 0 @
     [99, 130, 83, 99] @ tlv_bytes os @ [DHCP_OPT_END]"

lemma fresh_server_wf: "dhcp_wf fresh_server"
  by (simp add: dhcp_wf_def fresh_server_def zero_lease_def zero_mac_def dhcp_consts)

lemma dhcp_env_at_ok: "stack_ok (dhcp_env_at ms)"
  by (simp add: stack_ok_def dhcp_env_at_def sizeof_dhcp_msg_eq)

lemma client_packet_facts:
  assumes "length mac = 6" "tlvs_ok os" "2 \<le> length (tlv_bytes os)"
  shows "packet_ok (client_packet mac os)" "client_mac (client_packet mac os) = mac" "has_options (client_packet mac os) os"
  using assms by (auto simp: packet_ok_def client_packet_def dhcp_consts sizeof_dhcp_msg_eq client_mac_def field_def
      has_options_def tlvs_ok_def)

lemma slot_addr_update: "dhcp_wf d \<Longrightarrow> (dhcp_ip d)[3 := of_nat DHCPS_BASE_IP + of_nat yi] = slot_addr d yi"
  by (auto simp: dhcp_wf_def slot_addr_def numeral_eq_Suc length_Suc_conv)

lemma reply_yiaddr:
  assumes "msg_wf m" "length a = 4"
  shows "field (reply_header m a @ R) 16 4 = a" "length (reply_header m a) = 236"
  using assms by (simp_all add: reply_header_def field_def msg_wf_def sizeof_dhcp_msg_eq)

text \<open>What a client finds in a reply: its transaction id, the address, and every option.\<close>

lemma reply_parts:
  fixes t :: u8
  assumes "packet_ok p" "stack_ok env" "dhcp_wf d" "dhcp_wf d'" "length a = 4"
  defines "msg \<equiv> reply_header (seen_msg env d p) a @ take 4 (msg_options (seen_msg env d p)) @ reply_option_bytes d' t"
  shows "field msg 4 4 = field p 4 4" "field msg 16 4 = a" "has_options msg (reply_tlvs d' t)"
proof -
  have l: "length (seen_msg env d p) = 548" "243 \<le> length p"
    using seen_msg_facts(1)[OF assms(1-3)] assms(1) by (simp_all add: msg_wf_def sizeof_dhcp_msg_eq packet_ok_def DHCP_MIN_SIZE_def)
  then show "field msg 4 4 = field p 4 4"
    by (simp add: msg_def reply_header_def field_def seen_msg_def Let_def drop_take)
  show "field msg 16 4 = a"
    unfolding msg_def by (rule reply_yiaddr(1)[OF seen_msg_facts(1)[OF assms(1-3)] assms(5)])
  have "drop 240 msg = reply_option_bytes d' t"
    using l reply_yiaddr(2)[OF seen_msg_facts(1)[OF assms(1-3)] assms(5)] by (simp add: msg_def member_ranges field_def)
  then show "has_options msg (reply_tlvs d' t)"
    unfolding has_options_def using reply_tlvs_bytes[OF assms(4)] reply_tlvs_ok[OF assms(4)] by auto
qed

lemma discover_none:
  assumes "dhcp_wf d" "dhcp_discover env d mac = (d', a)"
  shows "a = None \<longleftrightarrow> discover_choice (ticks_ms env) mac (dhcp_lease d) = DHCPS_MAX_IP"
proof -
  have "snd (discover_scan (ticks_ms env) mac 0 DHCPS_MAX_IP (dhcp_lease d)) = discover_choice (ticks_ms env) mac (dhcp_lease d)"
    using scan_choice[of 0 "dhcp_lease d" "ticks_ms env" mac DHCPS_MAX_IP] assms(1) by (simp add: dhcp_wf_def discover_choice_def)
  with assms(2) show ?thesis by (auto simp: dhcp_discover_def Let_def split: prod.splits if_splits)
qed

text \<open>
  C18 (dhcp_offer_choice). The server offers a client its own slot, or else the first slot that is free or expired;
  with none it stays silent. An offer goes out once, by broadcast, with the client's transaction id, the slot's address
  and the server's options.
\<close>

theorem dhcp_offer_choice:
  assumes "pbuf_ops_ok ops" "packet_ok p" "stack_ok env" "dhcp_wf d" "dhcp_pbuf_alloc env"
    and "has_options p os" "option_is os DHCP_OPT_MSG_TYPE [DHCPDISCOVER]"
  shows "\<exists>d' sent. dhcp_server_process env ops d p = Some (d', sent) \<and>
    (let yi = discover_choice (ticks_ms env) (client_mac p) (dhcp_lease d)
     in if yi = DHCPS_MAX_IP then sent = []
        else yi < DHCPS_MAX_IP \<and> (\<exists>msg. sent = [([255, 255, 255, 255], 68, msg)] \<and> field msg 16 4 = slot_addr d yi \<and>
          field msg 4 4 = field p 4 4 \<and> has_options msg (reply_tlvs d DHCPOFFER)))"
proof -
  obtain d' a where da: "dhcp_discover env d (client_mac p) = (d', a)" by (metis prod.exhaust)
  note pr = process_discover[OF assms(1-4,6,7) da]
  show ?thesis
  proof (cases a)
    case None
    with pr discover_none[OF assms(4) da] show ?thesis by simp
  next
    case (Some yt)
    obtain yi t where a: "a = Some (yi, t)" using Some by (cases yt) auto
    have yi: "yi < DHCPS_MAX_IP" "yi = discover_choice (ticks_ms env) (client_mac p) (dhcp_lease d)"
      using discover_offers[OF assms(4)] da a by blast+
    have t: "t = DHCPOFFER" using discover_offers[OF assms(4)] da a by blast
    have len: "length (slot_addr d yi) = 4" using assms(4) by (simp add: slot_addr_def dhcp_wf_def)
    note fr = discover_frame[OF da]
    have "reply_tlvs d' DHCPOFFER = reply_tlvs d DHCPOFFER" using fr by (simp add: reply_tlvs_def)
    with pr a yi assms(5) reply_parts[OF assms(2-4) discover_wf[OF assms(4) da] len, of DHCPOFFER] show ?thesis
      by (simp add: slot_addr_update[OF assms(4)] Let_def t)
  qed
qed

theorem dhcp_offer_choice_witness:
  "\<exists>d' msg. dhcp_server_process (dhcp_env_at 1000) std_pbuf fresh_server (client_packet [2, 4, 6, 8, 10, 12] [(53, [1])]) =
     Some (d', [([255, 255, 255, 255], 68, msg)]) \<and> field msg 16 4 = [192, 168, 4, 16]"
proof -
  have o: "tlvs_ok [(53, [1])]" "option_is [(53, [1])] DHCP_OPT_MSG_TYPE [DHCPDISCOVER]"
    by (simp_all add: tlvs_ok_def option_is_def dhcp_consts)
  have "length [2, 4, 6, 8, 10, 12 :: u8] = 6" "2 \<le> length (tlv_bytes [(53, [1])])" by simp_all
  note c = client_packet_facts[OF this(1) o(1) this(2)]
  have y: "discover_choice (ticks_ms (dhcp_env_at 1000)) [2, 4, 6, 8, 10, 12] (dhcp_lease fresh_server) = 0"
    by (simp add: discover_choice_def fresh_server_def zero_lease_def zero_mac_def replicate_numeral available_def)
  have "dhcp_pbuf_alloc (dhcp_env_at 1000)" by (simp add: dhcp_env_at_def)
  from dhcp_offer_choice[OF std_pbuf_ok c(1) dhcp_env_at_ok fresh_server_wf this c(3) o(2)] c(2) y show ?thesis
    by (auto simp: Let_def slot_addr_def fresh_server_def dhcp_consts)
qed


text \<open>
  C17 (dhcp_handshake). The address offered to a client is granted when the client requests it: the server
  answers with an acknowledgement that carries that address, the transaction id and the server's options, the slot
  belongs to the client, and the lease lasts at least 24 hours.
\<close>

theorem dhcp_handshake:
  assumes "pbuf_ops_ok ops" "stack_ok env" "stack_ok env2" "dhcp_wf d" "dhcp_pbuf_alloc env2"
    and p: "packet_ok p" "has_options p os" "option_is os DHCP_OPT_MSG_TYPE [DHCPDISCOVER]"
    and q: "packet_ok q" "has_options q os2" "option_is os2 DHCP_OPT_MSG_TYPE [DHCPREQUEST]"
    and mac: "client_mac q = client_mac p"
    and yi: "yi = discover_choice (ticks_ms env) (client_mac p) (dhcp_lease d)" "yi \<noteq> DHCPS_MAX_IP"
    and req: "option_is os2 DHCP_OPT_REQUESTED_IP (slot_addr d yi)"
  shows "\<exists>d1 s1 d2 msg. dhcp_server_process env ops d p = Some (d1, s1) \<and>
    dhcp_server_process env2 ops d1 q = Some (d2, [([255, 255, 255, 255], 68, msg)]) \<and>
    field msg 16 4 = slot_addr d yi \<and> field msg 4 4 = field q 4 4 \<and> has_options msg (reply_tlvs d DHCPACK) \<and>
    lease_mac (dhcp_lease d2 ! yi) = client_mac p \<and>
    (\<forall>t \<le> 86400000. \<not> expired (ticks_ms env2 0 + of_nat t) (dhcp_lease d2 ! yi))"
proof -
  obtain d1 a where da: "dhcp_discover env d (client_mac p) = (d1, a)" by (metis prod.exhaust)
  from discover_none[OF assms(4) da] yi obtain yt where yt: "a = Some yt" by auto
  obtain y t where a: "a = Some (y, t)" using yt by (cases yt) auto
  from discover_offers[OF assms(4)] da a have
    y: "y = yi" "yi < DHCPS_MAX_IP" "lease_mac (dhcp_lease d1 ! yi) = client_mac p \<or> lease_mac (dhcp_lease d1 ! yi) = zero_mac"
    using yi(1) by blast+
  note wf1 = discover_wf[OF assms(4) da] and fr = discover_frame[OF da]
  have addr: "slot_addr d1 yi = slot_addr d yi" using fr by (simp add: slot_addr_def)
  from process_request[OF assms(1) q(1) assms(3) wf1 q(2,3) _ y(2)] req y(3) mac addr obtain d2 where
    d2: "dhcp_server_process env2 ops d1 q =
       Some (d2, [([255, 255, 255, 255], 68,
            reply_header (seen_msg env2 d1 q) ((dhcp_ip d1)[3 := of_nat DHCPS_BASE_IP + of_nat yi]) @
            take 4 (msg_options (seen_msg env2 d1 q)) @ reply_option_bytes d1 DHCPACK)])"
      "dhcp_lease d2 = (dhcp_lease d1)[yi := \<lparr>lease_mac = client_mac q, lease_expiry = new_expiry (ticks_ms env2 0)\<rparr>]"
    using assms(5) by auto
  have len: "length (slot_addr d yi) = 4" "yi < length (dhcp_lease d1)"
    using assms(4) wf1 y(2) by (simp_all add: slot_addr_def dhcp_wf_def)
  have "\<forall>t \<le> 86400000. \<not> expired (ticks_ms env2 0 + of_nat t) (dhcp_lease d2 ! yi)"
    using lease_valid_time(1) d2(2) len(2) by simp
  moreover have "reply_tlvs d1 DHCPACK = reply_tlvs d DHCPACK" using fr by (simp add: reply_tlvs_def)
  ultimately show ?thesis
    using d2 len mac process_discover[OF assms(1) p(1) assms(2,4) p(2,3) da] reply_parts[OF q(1) assms(3) wf1 wf1 len(1), of DHCPACK]
    unfolding slot_addr_update[OF wf1] addr a by auto
qed

theorem dhcp_handshake_witness:
  "\<exists>d1 s1 d2 msg. dhcp_server_process (dhcp_env_at 1000) std_pbuf fresh_server (client_packet [2, 4, 6, 8, 10, 12] [(53, [1])]) =
     Some (d1, s1) \<and>
   dhcp_server_process (dhcp_env_at 2000) std_pbuf d1 (client_packet [2, 4, 6, 8, 10, 12] [(53, [3]), (50, [192, 168, 4, 16])]) =
     Some (d2, [([255, 255, 255, 255], 68, msg)]) \<and>
   field msg 16 4 = [192, 168, 4, 16] \<and> lease_mac (dhcp_lease d2 ! 0) = [2, 4, 6, 8, 10, 12]"
proof -
  let ?mac = "[2, 4, 6, 8, 10, 12] :: u8 list" and ?o = "[(53, [3]), (50, [192, 168, 4, 16])] :: tlvs"
  have a: "slot_addr fresh_server 0 = [192, 168, 4, 16]" by (simp add: slot_addr_def fresh_server_def dhcp_consts)
  have o: "tlvs_ok [(53, [1])]" "option_is [(53, [1])] DHCP_OPT_MSG_TYPE [DHCPDISCOVER]"
    "tlvs_ok ?o" "option_is ?o DHCP_OPT_MSG_TYPE [DHCPREQUEST]" "option_is ?o DHCP_OPT_REQUESTED_IP (slot_addr fresh_server 0)"
    by (simp_all add: tlvs_ok_def option_is_def dhcp_consts a)
  have l: "length ?mac = 6" "2 \<le> length (tlv_bytes [(53, [1])])" "2 \<le> length (tlv_bytes ?o)" by simp_all
  note c = client_packet_facts[OF l(1) o(1) l(2)] and q = client_packet_facts[OF l(1) o(3) l(3)]
  have y: "0 = discover_choice (ticks_ms (dhcp_env_at 1000)) (client_mac (client_packet ?mac [(53, [1])])) (dhcp_lease fresh_server)"
    "0 \<noteq> DHCPS_MAX_IP" "dhcp_pbuf_alloc (dhcp_env_at 2000)"
    unfolding c(2) by (simp_all add: discover_choice_def fresh_server_def zero_lease_def zero_mac_def replicate_numeral
        available_def dhcp_env_at_def dhcp_consts)
  from dhcp_handshake[OF std_pbuf_ok dhcp_env_at_ok dhcp_env_at_ok fresh_server_wf y(3) c(1,3) o(2) q(1,3) o(4) _ y(1,2) o(5)]
  show ?thesis unfolding c(2) q(2) a by blast
qed

lemma process_any:
  assumes "pbuf_ops_ok ops" "stack_ok env" "dhcp_wf d"
    and "dhcp_server_process env ops d p = Some (d', sent)"
  shows "dhcp_wf d' \<and> (\<forall>j < DHCPS_MAX_IP. lease_mac (dhcp_lease d ! j) \<noteq> client_mac p \<longrightarrow>
     lease_mac (dhcp_lease d ! j) \<noteq> zero_mac \<longrightarrow> \<not> expired (ticks_ms env j) (dhcp_lease d ! j) \<longrightarrow>
     dhcp_lease d' ! j = dhcp_lease d ! j)"
proof -
  consider "length p < DHCP_MIN_SIZE" | "packet_ok p" | "sizeof_dhcp_msg < length p"
    by (meson packet_ok_def not_less)
  then show ?thesis
  proof cases
    case 1
    then show ?thesis using assms(3,4) by (simp add: process_short)
  next
    case 2
    show ?thesis using process_wf(1,4)[OF assms(1) 2 assms(2-4)] by blast
  next
    case 3
    let ?p = "take sizeof_dhcp_msg p"
    have "packet_ok ?p" "client_mac ?p = client_mac p"
      using 3 by (simp_all add: packet_ok_def client_mac_def field_def sizeof_dhcp_msg_eq DHCP_MIN_SIZE_def drop_take)
    then show ?thesis
      using process_wf(1,4)[of ops ?p env d d' sent] assms process_long[OF assms(1) 3] by simp
  qed
qed

text \<open>
  C19 (dhcp_leases_safe). No packet, of whatever length, takes an address from a client that holds it: a lease of another client that has not
  expired is left exactly as it was, and the table keeps its form.
\<close>

theorem dhcp_leases_safe:
  assumes "pbuf_ops_ok ops" "stack_ok env" "dhcp_wf d"
    and "dhcp_server_process env ops d p = Some (d', sent)"
  shows "dhcp_wf d' \<and> (\<forall>j < DHCPS_MAX_IP. lease_mac (dhcp_lease d ! j) \<noteq> client_mac p \<longrightarrow>
     lease_mac (dhcp_lease d ! j) \<noteq> zero_mac \<longrightarrow> \<not> expired (ticks_ms env j) (dhcp_lease d ! j) \<longrightarrow>
     dhcp_lease d' ! j = dhcp_lease d ! j)"
  using process_any[OF assms] by blast

theorem dhcp_leases_safe_witness:
  "\<exists>d' sent. dhcp_server_process (dhcp_env_at 1000) std_pbuf
      (fresh_server\<lparr>dhcp_lease := (dhcp_lease fresh_server)[0 := \<lparr>lease_mac = [1, 1, 1, 1, 1, 1], lease_expiry = 1000\<rparr>]\<rparr>)
      (client_packet [2, 4, 6, 8, 10, 12] [(53, [1])]) = Some (d', sent) \<and>
    dhcp_lease d' ! 0 = \<lparr>lease_mac = [1, 1, 1, 1, 1, 1], lease_expiry = 1000\<rparr>"
proof -
  let ?l = "\<lparr>lease_mac = [1, 1, 1, 1, 1, 1], lease_expiry = 1000\<rparr>" and ?mac = "[2, 4, 6, 8, 10, 12] :: u8 list"
  let ?d = "fresh_server\<lparr>dhcp_lease := (dhcp_lease fresh_server)[0 := ?l]\<rparr>"
  have o: "tlvs_ok [(53, [1])]" "option_is [(53, [1])] DHCP_OPT_MSG_TYPE [DHCPDISCOVER]"
    by (simp_all add: tlvs_ok_def option_is_def dhcp_consts)
  have l: "length ?mac = 6" "2 \<le> length (tlv_bytes [(53, [1])])" by simp_all
  note c = client_packet_facts[OF l(1) o(1) l(2)]
  have wf: "dhcp_wf ?d"
    by (simp add: dhcp_wf_def fresh_server_def zero_lease_def zero_mac_def dhcp_consts replicate_numeral)
  obtain d1 a where "dhcp_discover (dhcp_env_at 1000) ?d ?mac = (d1, a)" by (metis prod.exhaust)
  with process_discover[OF std_pbuf_ok c(1) dhcp_env_at_ok wf c(3) o(2)] obtain d' sent where
    p: "dhcp_server_process (dhcp_env_at 1000) std_pbuf ?d (client_packet ?mac [(53, [1])]) = Some (d', sent)"
    unfolding c(2) by (fastforce split: option.splits)
  have d0: "dhcp_lease ?d ! 0 = ?l" by (simp add: fresh_server_def replicate_numeral)
  have "\<not> expired 1000 ?l" by (simp add: expired_def expiry32_def)
  with dhcp_leases_safe[OF std_pbuf_ok dhcp_env_at_ok wf p] d0 p show ?thesis
    unfolding c(2) by (simp add: dhcp_consts zero_mac_def replicate_numeral dhcp_env_at_def)
qed


text \<open>
  A granted lease belongs to the client that asked, is valid for 24 hours and has expired 65.6
  seconds later, as far as the 32-bit millisecond counter can tell (24.8 days).
\<close>

theorem lease_duration:
  assumes "dhcp_wf d" "dhcp_request env d mac opts = Some (d', Some (yi, t))"
  shows "yi < DHCPS_MAX_IP \<and> t = DHCPACK \<and> lease_mac (dhcp_lease d' ! yi) = mac \<and>
    (\<forall>ms \<le> 86400000. \<not> expired (ticks_ms env 0 + of_nat ms) (dhcp_lease d' ! yi)) \<and>
    (\<forall>ms. 86400000 + 65535 < ms \<longrightarrow> ms \<le> 2 ^ 31 \<longrightarrow> expired (ticks_ms env 0 + of_nat ms) (dhcp_lease d' ! yi))"
proof -
  from request_frame[OF assms(2)] have
    y: "yi < DHCPS_MAX_IP" "t = DHCPACK"
    and d': "d' = d\<lparr>dhcp_lease := (dhcp_lease d)[yi := \<lparr>lease_mac = mac, lease_expiry = new_expiry (ticks_ms env 0)\<rparr>]\<rparr>"
    by auto
  then have l: "dhcp_lease d' ! yi = \<lparr>lease_mac = mac, lease_expiry = new_expiry (ticks_ms env 0)\<rparr>"
    using assms(1) by (simp add: dhcp_wf_def)
  show ?thesis using y lease_valid_time[of "dhcp_lease d' ! yi" "ticks_ms env 0"] l by simp
qed

theorem lease_duration_witness:
  "\<exists>d'. dhcp_request (dhcp_env_at 4294900000) fresh_server [2, 4, 6, 8, 10, 12]
       (tlv_bytes [(50, [192, 168, 4, 18])] @ [DHCP_OPT_END]) = Some (d', Some (2, DHCPACK)) \<and>
     \<not> expired (4294900000 + 86400000) (dhcp_lease d' ! 2) \<and> expired (4294900000 + 86500000) (dhcp_lease d' ! 2)"
proof -
  let ?o = "tlv_bytes [(50, [192, 168, 4, 18])] @ [DHCP_OPT_END]" and ?mac = "[2, 4, 6, 8, 10, 12] :: u8 list"
  have "opt_find ?o DHCP_OPT_REQUESTED_IP = Some (Some 0)"
    using opt_find_tlv[of "[(50, [192, 168, 4, 18])]" "[]" DHCP_OPT_REQUESTED_IP] by (simp add: tlvs_ok_def dhcp_consts)
  then have r: "requests_addr ?o (slot_addr fresh_server 2)"
    by (auto simp: requests_addr_def slot_addr_def fresh_server_def dhcp_consts rd_bytes_def)
  have "lease_mac (dhcp_lease fresh_server ! 2) = zero_mac" by (simp add: fresh_server_def zero_lease_def)
  with request_granted[OF fresh_server_wf _ r, of ?mac "dhcp_env_at 4294900000"] obtain d' where
    d': "dhcp_request (dhcp_env_at 4294900000) fresh_server ?mac ?o = Some (d', Some (2, DHCPACK))"
    by (auto simp: dhcp_consts)
  from lease_duration[OF fresh_server_wf d'] have
    l: "\<forall>ms \<le> 86400000. \<not> expired (4294900000 + of_nat ms) (dhcp_lease d' ! 2)"
      "\<forall>ms. 86400000 + 65535 < ms \<longrightarrow> ms \<le> 2 ^ 31 \<longrightarrow> expired (4294900000 + of_nat ms) (dhcp_lease d' ! 2)"
    by (simp_all add: dhcp_env_at_def)
  show ?thesis using d' l(1)[rule_format, of 86400000] l(2)[rule_format, of 86500000] by simp
qed

text \<open>
  A client that searches the options of a reply finds every option the server means to
  send, with its value: message type, server, netmask, router, name server and lease time.
\<close>

theorem dhcp_reply_readable:
  assumes "dhcp_wf d" "msg_wf m" "dhcp_reply env d m yi t = Some [(dest, port, msg)]"
    and "option_is (reply_tlvs d t) cmd v"
  shows "length msg = 274 \<and> (\<exists>i. opt_find (drop 240 msg) cmd = Some (Some i) \<and> rd_bytes (drop 240 msg) (i + 2) (length v) = Some v)"
proof -
  let ?a = "(msg_yiaddr m)[3 := of_nat DHCPS_BASE_IP + of_nat yi]"
  have m: "length m = 548" using assms(2) by (simp add: msg_wf_def sizeof_dhcp_msg_eq)
  then have "length ?a = 4" by (simp add: member_ranges field_def)
  then have h: "length (reply_header m ?a) = 236" using reply_yiaddr(2)[OF assms(2)] by simp
  have msg: "msg = reply_header m ?a @ take 4 (msg_options m) @ reply_option_bytes d t"
    using assms(3) dhcp_reply_bytes[OF assms(1,2)] by (auto split: if_splits)
  have dr: "drop 240 msg = reply_option_bytes d t" using h m by (simp add: msg member_ranges field_def)
  have "has_options msg (reply_tlvs d t)"
    unfolding has_options_def dr using reply_tlvs_bytes[OF assms(1)] reply_tlvs_ok[OF assms(1)] by auto
  from has_option[OF this assms(4), of "[]"] show ?thesis
    using h m reply_option_bytes_length[OF assms(1)] by (simp add: msg member_ranges field_def)
qed

theorem dhcp_reply_readable_witness:
  "\<exists>dest port msg i. dhcp_reply (dhcp_env_at 0) fresh_server (replicate 548 0) 3 DHCPACK = Some [(dest, port, msg)] \<and>
     opt_find (drop 240 msg) 51 = Some (Some i) \<and> rd_bytes (drop 240 msg) (i + 2) 4 = Some [0, 1, 81, 128]"
proof -
  have m: "msg_wf (replicate 548 0)" by (simp add: msg_wf_def sizeof_dhcp_msg_eq)
  from dhcp_reply_bytes[OF fresh_server_wf m, of "dhcp_env_at 0" 3 DHCPACK] obtain dest port msg where
    r: "dhcp_reply (dhcp_env_at 0) fresh_server (replicate 548 0) 3 DHCPACK = Some [(dest, port, msg)]"
    by (simp add: dhcp_env_at_def)
  have "option_is (reply_tlvs fresh_server DHCPACK) 51 [0, 1, 81, 128]"
    by (simp add: option_is_def reply_tlvs_def be32_bytes_def)
  from dhcp_reply_readable[OF fresh_server_wf m r this] r show ?thesis by (auto simp: numeral_eq_Suc)
qed

lemma opt_find_from_skip:
  assumes "\<forall>(c, v) \<in> set os. c \<noteq> DHCP_OPT_END \<and> c \<noteq> cmd \<and> length v \<le> 255"
    and "length A + length (tlv_bytes os) \<le> 308"
  shows "opt_find_from (A @ tlv_bytes os @ R) cmd (length A) =
    opt_find_from (A @ tlv_bytes os @ R) cmd (length A + length (tlv_bytes os))"
  using assms
proof (induction os arbitrary: A)
  case (Cons o1 os)
  obtain c v where o1: "o1 = (c, v)" by fastforce
  with Cons.prems have cv: "c \<noteq> DHCP_OPT_END" "c \<noteq> cmd" "length v \<le> 255" by auto
  have n: "unat (of_nat (length v) :: u8) = length v"
    using cv(3) by (simp add: unsigned_of_nat take_bit_nat_eq_self)
  let ?A = "A @ c # of_nat (length v) # v"
  have "length ?A + length (tlv_bytes os) \<le> 308" using Cons.prems(2) by (simp add: o1)
  with Cons.IH[of ?A] Cons.prems(1) have IH:
    "opt_find_from (A @ tlv_bytes (o1 # os) @ R) cmd (length A + (2 + length v)) =
     opt_find_from (A @ tlv_bytes (o1 # os) @ R) cmd (length A + length (tlv_bytes (o1 # os)))"
    by (simp add: o1 add.assoc)
  have "opt_find_from (A @ tlv_bytes (o1 # os) @ R) cmd (length A) =
    opt_find_from (A @ tlv_bytes (o1 # os) @ R) cmd (length A + (2 + length v))"
    using Cons.prems(2) cv n by (subst opt_find_from.simps) (simp add: o1 rd_def nth_append)
  with IH show ?case by simp
qed simp

text \<open>
  C21 (dhcp_option_overrun). A packet whose options end one byte before the end of the structure, without an end
  marker, makes the search read the length byte behind the structure.
\<close>

theorem dhcp_option_overrun:
  assumes "pbuf_ops_ok ops" "packet_ok p" "stack_ok env" "dhcp_wf d"
    and "drop 240 p = tlv_bytes os @ [c]" "length (tlv_bytes os) = 307" "c \<noteq> DHCP_OPT_END" "c \<noteq> DHCP_OPT_MSG_TYPE"
    and "\<forall>(c, v) \<in> set os. c \<noteq> DHCP_OPT_END \<and> c \<noteq> DHCP_OPT_MSG_TYPE \<and> length v \<le> 255"
  shows "dhcp_server_process env ops d p = None"
proof -
  have "length (drop 240 p) = 308" using assms(5,6) by simp
  then have "length p = 548" using assms(2) by (simp add: packet_ok_def dhcp_consts)
  then have d: "drop (length p) (stack_bytes env) = []" using assms(3) by (simp add: stack_ok_def sizeof_dhcp_msg_eq)
  have "opt_find (tlv_bytes os @ [c]) DHCP_OPT_MSG_TYPE = opt_find_from (tlv_bytes os @ [c]) DHCP_OPT_MSG_TYPE 307"
    using opt_find_from_skip[OF assms(9), of "[]" "[c]"] assms(6) by (simp add: opt_find_def)
  also have "\<dots> = None" using assms(6-8) by (subst opt_find_from.simps) (simp add: rd_def nth_append)
  finally show ?thesis unfolding process_packet[OF assms(1-4)] d assms(5) by simp
qed

theorem dhcp_option_overrun_witness:
  "dhcp_server_process (dhcp_env_at 0) std_pbuf fresh_server
     (replicate 240 0 @ tlv_bytes [(12, replicate 255 0), (60, replicate 48 0)] @ [12]) = None"
  by (rule dhcp_option_overrun[OF std_pbuf_ok _ dhcp_env_at_ok fresh_server_wf, where os = "[(12, replicate 255 0), (60, replicate 48 0)]" and c = 12])
    (simp_all add: packet_ok_def dhcp_consts sizeof_dhcp_msg_eq)

end
