(* ===== verification/Host.thy ===== *)
theory Host
  imports Ctx Dhcp
begin

text \<open>
  Model of \<open>src/access_point/host.c\<close>: the setup access point with its one-page HTTP server,
  which takes the Wi-Fi credentials and the provisioning token in the JSON body of a POST.
  The TCP callbacks run on one connection's structure; lwIP's TCP calls are listed in order.
\<close>

named_theorems host_simps \<open>requests, credentials and connections\<close>

definition TCP_PORT :: nat where "TCP_PORT = 80"
definition POLL_TIME_S :: nat where "POLL_TIME_S = 5"
definition HTTP_POST :: string where "HTTP_POST = ''POST''"
definition WIFI_CREDENTIALS_ENDPOINT :: string where "WIFI_CREDENTIALS_ENDPOINT = ''/provision''"

abbreviation DQ :: char where "DQ \<equiv> CHR 0x22"
abbreviation CR :: char where "CR \<equiv> CHR 0x0D"
abbreviation LF :: char where "LF \<equiv> CHR 0x0A"

text \<open>Control blocks of lwIP are named by numbers.\<close>

datatype tcp_call =
    Tcp_clear_callbacks nat
  | Tcp_set_callbacks nat nat  \<comment> \<open>with the poll interval\<close>
  | Tcp_close nat
  | Tcp_abort nat
  | Tcp_write nat string
  | Tcp_recved nat nat
  | Tcp_clear_arg nat
  | Tcp_listen_callbacks nat
  | Pbuf_free
  | Wifi_enable_ap string string

section \<open>State\<close>

record tcp_server =
  server_pcb :: "nat option"
  srv_complete :: bool
  srv_gw :: "u8 list"

record tcp_conn =
  con_pcb :: nat
  sent_len :: int
  headers :: string
  header_len :: int
  result_len :: int

text \<open>
  A received buffer chain: its bytes, and the object its first \<open>payload\<close> pointer points
  into, from there on (lwIP does not terminate it).
\<close>

record tcp_pbuf =
  tot_bytes :: "u8 list"
  payload_obj :: string

record tcp_env =
  tcp_close_err :: lwip_err
  tcp_write_err :: lwip_err
  resp_bytes :: string  \<comment> \<open>the uninitialised response buffer\<close>
  conn_calloc :: bool

definition tcp_env_ok :: "tcp_env \<Rightarrow> bool" where
  "tcp_env_ok env \<longleftrightarrow> length (resp_bytes env) = 256"

section \<open>Connections\<close>

text \<open>
  The connection structure is \<open>None\<close> when freed. The assertion of the code is a check whose
  failure aborts the program.
\<close>

definition tcp_close_client_connection ::
  "tcp_env \<Rightarrow> tcp_conn option \<Rightarrow> nat option \<Rightarrow> lwip_err \<Rightarrow>
   (lwip_err \<times> tcp_conn option \<times> tcp_call list) option" where
  "tcp_close_client_connection env con client_pcb close_err =
     (case client_pcb of
        None \<Rightarrow> Some (close_err, con, [])
      | Some pcb \<Rightarrow> do {
          c \<leftarrow> con;
          require (con_pcb c = pcb);
          if tcp_close_err env \<noteq> ERR_OK
          then Some (ERR_ABRT, None, [Tcp_clear_callbacks pcb, Tcp_close pcb, Tcp_abort pcb])
          else Some (close_err, None, [Tcp_clear_callbacks pcb, Tcp_close pcb])
        })"

definition tcp_server_close :: "tcp_server \<Rightarrow> tcp_server \<times> tcp_call list" where
  "tcp_server_close state =
     (case server_pcb state of
        Some pcb \<Rightarrow> (state\<lparr>server_pcb := None\<rparr>, [Tcp_clear_arg pcb, Tcp_close pcb])
      | None \<Rightarrow> (state, []))"

definition tcp_server_sent ::
  "tcp_env \<Rightarrow> tcp_conn option \<Rightarrow> nat \<Rightarrow> u16 \<Rightarrow> (lwip_err \<times> tcp_conn option \<times> tcp_call list) option" where
  "tcp_server_sent env con pcb len = do {
     c \<leftarrow> con;
     let c1 = c\<lparr>sent_len := sent_len c + uint len\<rparr>;
     if sent_len c1 \<ge> header_len c1 + result_len c1
     then tcp_close_client_connection env (Some c1) (Some pcb) ERR_OK
     else Some (ERR_OK, Some c1, [])
   }"

section \<open>The credentials\<close>

definition json_query :: "string \<Rightarrow> string" where
  "json_query k = [DQ] @ k @ [DQ, CHR '':'', DQ]"

text \<open>\<open>memcpy\<close> of a value into a 64-byte field and its terminator.\<close>

definition store_field :: "string \<Rightarrow> string \<Rightarrow> string option" where
  "store_field fld val = do {
     f1 \<leftarrow> blit fld 0 val;
     wr f1 (length val) NUL
   }"

definition parse_wifi_credentials :: "app_ctx \<Rightarrow> string \<Rightarrow> (bool \<times> app_ctx) option" where
  "parse_wifi_credentials ctx json = do {
     s \<leftarrow> c_str json;
     (case (find_sub (json_query ''ssid'') s, find_sub (json_query ''password'') s, find_sub (json_query ''token'') s) of
        (Some i1, Some i2, Some i3) \<Rightarrow>
          (let ssid_start = drop (i1 + length (json_query ''ssid'')) s;
               pw_start = drop (i2 + length (json_query ''password'')) s;
               tkn_start = drop (i3 + length (json_query ''token'')) s
           in case (find_char DQ ssid_start, find_char DQ pw_start, find_char DQ tkn_start) of
                (Some n1, Some n2, Some n3) \<Rightarrow>
                  if n1 > 64 \<or> n2 > 64 \<or> n3 > 64 then Some (False, ctx)
                  else do {
                    f1 \<leftarrow> store_field (wifi_ssid ctx) (take n1 ssid_start);
                    f2 \<leftarrow> store_field (wifi_pass ctx) (take n2 pw_start);
                    f3 \<leftarrow> store_field (prv_token ctx) (take n3 tkn_start);
                    Some (True, ctx\<lparr>wifi_ssid := f1, wifi_pass := f2, prv_token := f3, wifi_configd := True\<rparr>)
                  }
              | _ \<Rightarrow> Some (False, ctx))
      | _ \<Rightarrow> Some (False, ctx))
   }"

section \<open>Requests\<close>

definition http_ok :: string where
  "http_ok = ''HTTP/1.1 200 OK'' @ [CR, LF, CR, LF]"

definition http_error_body :: string where
  "http_error_body = ''{'' @ [DQ] @ ''error'' @ [DQ] @ '':'' @ [DQ] @ ''invalid_format'' @ [DQ] @ ''}''"

definition http_bad_request :: string where
  "http_bad_request = ''HTTP/1.1 400 Bad Request'' @ [LF] @ ''Content-Length: '' @
     dec_int (int (length http_error_body)) @ [LF] @ ''Content-Type: application/json'' @
     [CR, LF, CR, LF] @ http_error_body"

text \<open>Whether the request line in the header buffer is a POST to the endpoint.\<close>

definition is_provision_post :: "string \<Rightarrow> bool option" where
  "is_provision_post hdr =
     (if take (length HTTP_POST) hdr = HTTP_POST
      then (let path = dropWhile (\<lambda>c. c = CHR '' '') (drop (length HTTP_POST + 1) hdr)
            in if path = [] then None
               else Some (take (length WIFI_CREDENTIALS_ENDPOINT) path = WIFI_CREDENTIALS_ENDPOINT))
      else Some False)"

definition tcp_server_recv ::
  "tcp_env \<Rightarrow> pbuf_ops \<Rightarrow> app_ctx \<Rightarrow> tcp_conn option \<Rightarrow> nat \<Rightarrow> tcp_pbuf option \<Rightarrow>
   (lwip_err \<times> app_ctx \<times> tcp_conn option \<times> tcp_call list) option" where
  "tcp_server_recv env ops ctx con pcb p =
     (case p of
        None \<Rightarrow> do {
          (e, con', calls) \<leftarrow> tcp_close_client_connection env con (Some pcb) ERR_OK;
          Some (e, ctx, con', calls)
        }
      | Some p \<Rightarrow> do {
          c \<leftarrow> con;
          require (con_pcb c = pcb);
          let tot_len = length (tot_bytes p);
          if tot_len > 0
          then do {
            let n = (if tot_len > length (headers c) - 1 then length (headers c) - 1 else tot_len);
            hdr \<leftarrow> blit (headers c) 0 (map (\<lambda>b. char_of (unat b)) (pbuf_copy ops (tot_bytes p) n 0));
            let c1 = c\<lparr>headers := hdr\<rparr>;
            post \<leftarrow> is_provision_post hdr;
            body \<leftarrow> (if post
                     then do {
                       s \<leftarrow> c_str (payload_obj p);
                       Some (map_option (\<lambda>i. drop (i + 4) (payload_obj p)) (find_sub [CR, LF, CR, LF] s))
                     }
                     else Some None);
            (case body of
               Some json \<Rightarrow> do {
                 (ok, ctx1) \<leftarrow> parse_wifi_credentials ctx json;
                 response \<leftarrow> (if ok then Some http_ok
                              else do {
                                buf \<leftarrow> c_snprintf (resp_bytes env) 0 256 http_bad_request;
                                c_str buf
                              });
                 (e, con', calls) \<leftarrow> tcp_close_client_connection env (Some c1) (Some pcb) (tcp_write_err env);
                 Some (e, ctx1, con', Tcp_write pcb response # calls)
               }
             | None \<Rightarrow> Some (ERR_OK, ctx, Some c1, [Tcp_recved pcb tot_len, Pbuf_free]))
          }
          else Some (ERR_OK, ctx, con, [Pbuf_free])
        })"

definition tcp_server_poll ::
  "tcp_env \<Rightarrow> tcp_conn option \<Rightarrow> nat \<Rightarrow> (lwip_err \<times> tcp_conn option \<times> tcp_call list) option" where
  "tcp_server_poll env con pcb = tcp_close_client_connection env con (Some pcb) ERR_OK"

definition tcp_server_err ::
  "tcp_env \<Rightarrow> tcp_conn option \<Rightarrow> lwip_err \<Rightarrow> (tcp_conn option \<times> tcp_call list) option" where
  "tcp_server_err env con err =
     (if err \<noteq> ERR_ABRT
      then do {
        c \<leftarrow> con;
        (_, con', calls) \<leftarrow> tcp_close_client_connection env con (Some (con_pcb c)) err;
        Some (con', calls)
      }
      else Some (con, []))"

section \<open>The server\<close>

text \<open>\<open>None\<close> for the connection: none was made, and the error is returned to lwIP.\<close>

definition tcp_server_accept ::
  "tcp_env \<Rightarrow> tcp_server \<Rightarrow> nat option \<Rightarrow> lwip_err \<Rightarrow> lwip_err \<times> tcp_conn option \<times> tcp_call list" where
  "tcp_server_accept env state client_pcb err =
     (case client_pcb of
        None \<Rightarrow> (ERR_VAL, None, [])
      | Some pcb \<Rightarrow>
          if err \<noteq> ERR_OK then (ERR_VAL, None, [])
          else if \<not> conn_calloc env then (ERR_MEM, None, [])
          else (ERR_OK,
                Some \<lparr>con_pcb = pcb, sent_len = 0, headers = replicate 4096 NUL, header_len = 0, result_len = 0\<rparr>,
                [Tcp_set_callbacks pcb (POLL_TIME_S * 2)]))"

record ap_env =
  state_calloc :: bool
  dhcp_calloc :: bool
  tcp_new :: "nat option"
  tcp_bind_err :: lwip_err
  tcp_listen :: "nat option"
  ap_dhcp :: dhcp_env

definition tcp_server_open :: "ap_env \<Rightarrow> tcp_server \<Rightarrow> bool \<times> tcp_server \<times> tcp_call list" where
  "tcp_server_open env state =
     (case tcp_new env of
        None \<Rightarrow> (True, state, [])
      | Some pcb \<Rightarrow>
          if tcp_bind_err env \<noteq> ERR_OK then (True, state, [])
          else (case tcp_listen env of
                  None \<Rightarrow> (True, state\<lparr>server_pcb := None\<rparr>, [Tcp_close pcb])
                | Some lpcb \<Rightarrow> (False, state\<lparr>server_pcb := Some lpcb\<rparr>, [Tcp_listen_callbacks lpcb])))"

text \<open>\<open>HOSTING\<close>, and the structures of the server last started.\<close>

record host_state =
  hosting :: bool
  ap_server :: "tcp_server option"
  ap_leases :: "dhcp_server option"

definition AP_GATEWAY :: "u8 list" where "AP_GATEWAY = [192, 168, 4, 1]"
definition AP_NETMASK :: "u8 list" where "AP_NETMASK = [255, 255, 255, 0]"

definition host_provisioning_ap :: "ap_env \<Rightarrow> host_state \<Rightarrow> (dt_err \<times> host_state \<times> tcp_call list) option" where
  "host_provisioning_ap env hs =
     (if \<not> state_calloc env then Some (DT_ERR_MALLOC, hs, [])
      else (let state = \<lparr>server_pcb = None, srv_complete = False, srv_gw = AP_GATEWAY\<rparr>;
                ap = Wifi_enable_ap ''Dirtie-Setup'' ''letsgetdirtie''
            in if \<not> dhcp_calloc env then None
               else (let (dhcp, _) = dhcp_server_init (ap_dhcp env) (srv_gw state) AP_NETMASK;
                         (failed, state1, calls) = tcp_server_open env state;
                         hs1 = hs\<lparr>ap_server := Some state1, ap_leases := Some dhcp\<rparr>
                     in if failed then Some (DT_ERR_OPENSERVER, hs1, ap # calls)
                        else Some (DT_ERR_OK, hs1\<lparr>hosting := True\<rparr>, ap # calls))))"

definition wifi_config_handler :: "ap_env \<Rightarrow> host_state \<Rightarrow> (dt_err \<times> host_state \<times> tcp_call list) option" where
  "wifi_config_handler env hs =
     (if \<not> hosting hs then host_provisioning_ap env hs else Some (DT_ERR_OK, hs, []))"

section \<open>Finding keys in a JSON object\<close>

text \<open>Skipping a quoted string that is not the searched key, and single characters between.\<close>

lemma find_query_other: "c \<noteq> DQ \<Longrightarrow> find_sub (json_query k) (c # r) = map_option Suc (find_sub (json_query k) r)"
  by (simp add: json_query_def)

lemma find_query_value:
  assumes "DQ \<notin> set v"
  shows "find_sub (json_query k) (v @ r) = map_option ((+) (length v)) (find_sub (json_query k) r)"
  using assms
proof (induction v)
  case Nil
  then show ?case by (cases "find_sub (json_query k) r") auto
next
  case (Cons c v)
  then show ?case
    using find_query_other[of c k "v @ r"] by (cases "find_sub (json_query k) r") auto
qed

lemma quote_free_prefix:
  "DQ \<notin> set k \<Longrightarrow> DQ \<notin> set v \<Longrightarrow> prefix (k @ DQ # a) (v @ DQ # b) \<longleftrightarrow> k = v \<and> prefix a b"
proof (induction k arbitrary: v)
  case Nil
  then show ?case by (cases v) auto
next
  case (Cons c k)
  then show ?case by (cases v) auto
qed

lemma find_query_block:
  assumes "DQ \<notin> set k" "DQ \<notin> set v" "k \<noteq> []" "hd k \<noteq> c" "c \<noteq> DQ" "v \<noteq> k \<or> c \<noteq> CHR '':''"
  shows "find_sub (json_query k) (DQ # v @ DQ # c # r) =
    map_option ((+) (length v + 3)) (find_sub (json_query k) r)"
proof -
  obtain k0 k' where k: "k = k0 # k'" using assms(3) by (cases k) auto
  have 1: "\<not> prefix (json_query k) (DQ # v @ DQ # c # r)"
    using quote_free_prefix[OF assms(1,2), of "[CHR '':'', DQ]" "c # r"] assms(6) by (auto simp: json_query_def)
  have 2: "\<not> prefix (json_query k) (DQ # c # r)" using assms(4) k by (simp add: json_query_def)
  have "find_sub (json_query k) (DQ # v @ DQ # c # r) =
      map_option Suc (map_option ((+) (length v)) (map_option Suc (map_option Suc (find_sub (json_query k) r))))"
    using 1 2 find_query_value[OF assms(2), of k "DQ # c # r"] find_query_other[OF assms(5), of k r] by simp
  then show ?thesis by (cases "find_sub (json_query k) r") auto
qed

lemma find_query_here: "find_sub (json_query k) (json_query k @ r) = Some 0"
  by (rule find_sub_here)

text \<open>The body a client sends.\<close>

definition json_pair :: "string \<Rightarrow> string \<Rightarrow> string" where
  "json_pair k v = [DQ] @ k @ [DQ, CHR '':'', DQ] @ v @ [DQ]"

definition provision_body :: "string \<Rightarrow> string \<Rightarrow> string \<Rightarrow> string" where
  "provision_body ssid pass tkn =
     ''{'' @ json_pair ''ssid'' ssid @ '','' @ json_pair ''password'' pass @ '','' @ json_pair ''token'' tkn @ ''}''"

text \<open>A key before the searched one, with its value.\<close>

lemma find_query_pair:
  assumes "DQ \<notin> set k" "DQ \<notin> set v" "DQ \<notin> set k1" "k \<noteq> []" "hd k \<noteq> CHR '':''" "hd k \<noteq> CHR '',''" "k1 \<noteq> k"
  shows "find_sub (json_query k) (json_query k1 @ v @ DQ # CHR '','' # r) =
    map_option ((+) (length k1 + length v + 6)) (find_sub (json_query k) r)"
proof -
  have "json_query k1 @ v @ DQ # CHR '','' # r = DQ # k1 @ DQ # CHR '':'' # (DQ # v @ DQ # CHR '','' # r)"
    by (simp add: json_query_def)
  then have "find_sub (json_query k) (json_query k1 @ v @ DQ # CHR '','' # r) =
      map_option ((+) (length k1 + 3)) (map_option ((+) (length v + 3)) (find_sub (json_query k) r))"
    using find_query_block[OF assms(1,3,4,5) _ disjI1[OF assms(7)], of "DQ # v @ DQ # CHR '','' # r"]
      find_query_block[OF assms(1,2,4,6), of r] by simp
  then show ?thesis by (cases "find_sub (json_query k) r") auto
qed

lemma provision_body_eq:
  "provision_body s p t = CHR ''{'' # json_query ''ssid'' @ s @ DQ # CHR '','' #
     json_query ''password'' @ p @ DQ # CHR '','' # json_query ''token'' @ t @ [DQ, CHR ''}'']"
  by (simp add: provision_body_def json_pair_def json_query_def)

lemma provision_body_found:
  assumes "DQ \<notin> set s" "DQ \<notin> set p" "DQ \<notin> set t"
  shows "find_sub (json_query ''ssid'') (provision_body s p t) = Some 1"
    and "find_sub (json_query ''password'') (provision_body s p t) = Some (length s + 11)"
    and "find_sub (json_query ''token'') (provision_body s p t) = Some (length s + length p + 25)"
proof -
  have brace: "find_sub (json_query k) (CHR ''{'' # r) = map_option Suc (find_sub (json_query k) r)" for k r
    by (rule find_query_other) simp
  let ?T = "json_query ''token'' @ t @ [DQ, CHR ''}'']"
  have t: "find_sub (json_query ''token'') (json_query ''password'' @ p @ DQ # CHR '','' # ?T) = Some (length p + 14)"
    using find_query_pair[of "''token''" p "''password''" ?T] assms(2) find_query_here[of "''token''"]
    by (simp del: append_assoc)
  show "find_sub (json_query ''ssid'') (provision_body s p t) = Some 1"
    unfolding provision_body_eq brace find_query_here by simp
  show "find_sub (json_query ''password'') (provision_body s p t) = Some (length s + 11)"
    unfolding provision_body_eq brace
    using find_query_pair[of "''password''" s "''ssid''" "json_query ''password'' @ p @ DQ # CHR '','' # ?T"] assms(1)
      find_query_here[of "''password''"] by simp
  show "find_sub (json_query ''token'') (provision_body s p t) = Some (length s + length p + 25)"
    unfolding provision_body_eq brace
    using find_query_pair[of "''token''" s "''ssid''" "json_query ''password'' @ p @ DQ # CHR '','' # ?T"] assms(1) t
    by simp
qed

section \<open>Storing the credentials\<close>

lemma store_field_fits:
  assumes "length fld = 64" "length v < 64"
  shows "store_field fld v = Some (v @ NUL # drop (Suc (length v)) fld)"
proof -
  obtain x r where "drop (length v) fld = x # r" using assms by (cases "drop (length v) fld") auto
  moreover from this have "r = drop (Suc (length v)) fld" by (metis drop_Suc tl_drop list.sel(3))
  ultimately show ?thesis
    using assms list_update_length[of v x r NUL] by (simp add: store_field_def blit_def wr_def)
qed

lemma store_field_full: "length fld = 64 \<Longrightarrow> length v = 64 \<Longrightarrow> store_field fld v = None"
  by (simp add: store_field_def blit_def wr_def)

text \<open>The field then holds the value as a C string.\<close>

definition has_cstring :: "string \<Rightarrow> string \<Rightarrow> bool" where
  "has_cstring fld v \<longleftrightarrow> length fld = 64 \<and> c_str fld = Some v"

lemma store_field_holds:
  assumes "length fld = 64" "length v < 64" "is_cstring v"
  shows "\<exists>f. store_field fld v = Some f \<and> has_cstring f v"
  using store_field_fits[OF assms(1,2)] assms c_str_terminated[OF assms(3)] by (simp add: has_cstring_def)

lemma parse_body:
  assumes wf: "ctx_wf ctx" and q: "DQ \<notin> set s" "DQ \<notin> set p" "DQ \<notin> set t"
    and c: "is_cstring s" "is_cstring p" "is_cstring t"
    and json: "c_str json = Some (provision_body s p t)"
  shows "parse_wifi_credentials ctx json =
    (if length s > 64 \<or> length p > 64 \<or> length t > 64 then Some (False, ctx)
     else do {
       f1 \<leftarrow> store_field (wifi_ssid ctx) s;
       f2 \<leftarrow> store_field (wifi_pass ctx) p;
       f3 \<leftarrow> store_field (prv_token ctx) t;
       Some (True, ctx\<lparr>wifi_ssid := f1, wifi_pass := f2, prv_token := f3, wifi_configd := True\<rparr>)
     })"
proof -
  note f = provision_body_found[OF q]
  let ?b = "provision_body s p t"
  have l: "length (json_query ''ssid'') = 8" "length (json_query ''password'') = 12" "length (json_query ''token'') = 9"
    by (simp_all add: json_query_def)
  have dl: "b = X @ R \<Longrightarrow> drop (length X) b = R" for b X R :: string by simp
  let ?A = "''{'' @ json_query ''ssid''" and ?R3 = "t @ DQ # ''}''"
  let ?R2 = "p @ DQ # '','' @ json_query ''token'' @ ?R3"
  have "?b = ?A @ s @ DQ # '','' @ json_query ''password'' @ ?R2" by (simp add: provision_body_eq)
  then have "drop (length ?A) ?b = s @ DQ # '','' @ json_query ''password'' @ ?R2" by (rule dl)
  then obtain r1 where d1: "drop (1 + 8) ?b = s @ DQ # r1" by (simp add: l)
  have "?b = (?A @ s @ [DQ] @ '','' @ json_query ''password'') @ ?R2" by (simp add: provision_body_eq)
  then have "drop (length (?A @ s @ [DQ] @ '','' @ json_query ''password'')) ?b = ?R2" by (rule dl)
  then obtain r2 where d2: "drop (length s + 11 + 12) ?b = p @ DQ # r2" by (simp add: l add.commute)
  have "?b = (?A @ s @ [DQ] @ '','' @ json_query ''password'' @ p @ [DQ] @ '','' @ json_query ''token'') @ ?R3"
    by (simp add: provision_body_eq)
  then have "drop (length (?A @ s @ [DQ] @ '','' @ json_query ''password'' @ p @ [DQ] @ '','' @ json_query ''token'')) ?b = ?R3"
    by (rule dl)
  then have d3: "drop (length s + length p + 25 + 9) ?b = t @ DQ # ''}''" by (simp add: l add_ac)
  show ?thesis
    unfolding parse_wifi_credentials_def json Option.bind.simps f prod.case option.case l d1 d2 d3 Let_def
    by (simp only: find_char_first[OF q(1)] find_char_first[OF q(2)] find_char_first[OF q(3)] prod.case option.case
        append_eq_conv_conj[THEN iffD1, OF refl, THEN conjunct1] take_append) simp
qed

section \<open>What a request changes\<close>

lemma store_field_ok: "length fld = 64 \<Longrightarrow> store_field fld v = Some f \<Longrightarrow> length f = 64 \<and> NUL \<in> set f"
  by (auto simp: store_field_def bind_eq_Some_conv wr_def blit_def set_update_memI split: if_splits)

lemma parse_frame:
  assumes "parse_wifi_credentials ctx json = Some (b, ctx')"
  shows "(b = False \<and> ctx' = ctx) \<or>
    (b = True \<and> (\<exists>f1 v1 f2 v2 f3 v3. store_field (wifi_ssid ctx) v1 = Some f1 \<and>
       store_field (wifi_pass ctx) v2 = Some f2 \<and> store_field (prv_token ctx) v3 = Some f3 \<and>
       ctx' = ctx\<lparr>wifi_ssid := f1, wifi_pass := f2, prv_token := f3, wifi_configd := True\<rparr>))"
  using assms unfolding parse_wifi_credentials_def
  by (auto simp: bind_eq_Some_conv Let_def dest!: case_opt split: if_split_asm) blast+

lemma parse_wf: "ctx_wf ctx \<Longrightarrow> parse_wifi_credentials ctx json = Some (b, ctx') \<Longrightarrow> ctx_wf ctx'"
  using parse_frame[of ctx json b ctx'] by (auto simp: ctx_wf_def dest: store_field_ok)

text \<open>The invariant of an open connection.\<close>

definition conn_inv :: "tcp_conn \<Rightarrow> bool" where
  "conn_inv c \<longleftrightarrow> header_len c = 0 \<and> result_len c = 0 \<and> sent_len c = 0 \<and>
     length (headers c) = 4096 \<and> headers c ! 4095 = NUL"

lemma accept_conn_inv: "tcp_server_accept env state pcb err = (e, Some c, calls) \<Longrightarrow> conn_inv c"
  by (auto simp: tcp_server_accept_def conn_inv_def split: option.splits if_splits)

lemma sent_closes:
  assumes "conn_inv c" "con_pcb c = pcb"
  shows "tcp_server_sent env (Some c) pcb len =
    (if tcp_close_err env = ERR_OK then Some (ERR_OK, None, [Tcp_clear_callbacks pcb, Tcp_close pcb])
     else Some (ERR_ABRT, None, [Tcp_clear_callbacks pcb, Tcp_close pcb, Tcp_abort pcb]))"
  using assms by (simp add: tcp_server_sent_def conn_inv_def tcp_close_client_connection_def)

definition raw_text :: "tcp_pbuf \<Rightarrow> string" where
  "raw_text p = map (\<lambda>b. char_of (unat b)) (tot_bytes p)"

text \<open>The header buffer after the copy: the first 4095 characters of the segment over the old ones.\<close>

lemma header_copy:
  assumes "pbuf_ops_ok ops" "conn_inv c"
  shows "blit (headers c) 0 (map (\<lambda>b. char_of (unat b)) (pbuf_copy ops (tot_bytes p)
      (if length (tot_bytes p) > length (headers c) - 1 then length (headers c) - 1 else length (tot_bytes p)) 0)) =
    Some (take 4095 (raw_text p) @ drop (min 4095 (length (raw_text p))) (headers c))"
proof -
  have l: "length (headers c) = 4096" using assms(2) by (simp add: conn_inv_def)
  have m: "map (\<lambda>b. char_of (unat b)) (pbuf_copy ops (tot_bytes p)
      (if length (tot_bytes p) > length (headers c) - 1 then length (headers c) - 1 else length (tot_bytes p)) 0) =
      take 4095 (raw_text p)"
    using l by (simp add: pbuf_ops_okD(2)[OF assms(1)] raw_text_def take_map)
  show ?thesis unfolding m using l by (simp add: blit_def min.commute)
qed

definition header_of :: "tcp_conn \<Rightarrow> tcp_pbuf \<Rightarrow> string" where
  "header_of c p = take 4095 (raw_text p) @ drop (min 4095 (length (raw_text p))) (headers c)"

lemma header_of_inv: "conn_inv c \<Longrightarrow> conn_inv (c\<lparr>headers := header_of c p\<rparr>)"
  by (auto simp: conn_inv_def header_of_def nth_append min_def)

lemma is_provision_post_defined: "NUL \<in> set (drop 5 hdr) \<Longrightarrow> \<exists>b. is_provision_post hdr = Some b"
proof -
  assume n: "NUL \<in> set (drop 5 hdr)"
  have "dropWhile (\<lambda>c. c = CHR '' '') (drop 5 hdr) \<noteq> []"
  proof
    assume "dropWhile (\<lambda>c. c = CHR '' '') (drop 5 hdr) = []"
    then have "\<forall>c \<in> set (drop 5 hdr). c = CHR '' ''" by (simp only: dropWhile_eq_Nil_conv)
    from bspec[OF this n] show False by simp
  qed
  moreover have "length HTTP_POST + 1 = 5" by (simp add: HTTP_POST_def)
  ultimately have "is_provision_post hdr = Some (take (length HTTP_POST) hdr = HTTP_POST \<and>
      take (length WIFI_CREDENTIALS_ENDPOINT) (dropWhile (\<lambda>c. c = CHR '' '') (drop 5 hdr)) = WIFI_CREDENTIALS_ENDPOINT)"
    by (simp only: is_provision_post_def Let_def if_False simp_thms split: if_split) simp
  then show ?thesis by (rule exI)
qed

lemma header_post_defined:
  assumes "conn_inv c" shows "\<exists>b. is_provision_post (header_of c p) = Some b"
proof -
  have i: "length (header_of c p) = 4096" "header_of c p ! 4095 = NUL"
    using header_of_inv[OF assms, of p] by (simp_all add: conn_inv_def)
  have "drop 5 (header_of c p) ! 4090 = NUL" "4090 < length (drop 5 (header_of c p))" using i by simp_all
  then have "NUL \<in> set (drop 5 (header_of c p))" by (metis nth_mem)
  then show ?thesis by (rule is_provision_post_defined)
qed

text \<open>A request that is not a provisioning POST is acknowledged and dropped.\<close>

lemma recv_other:
  assumes "pbuf_ops_ok ops" "conn_inv c" "con_pcb c = pcb" "tot_bytes p \<noteq> []"
    and "is_provision_post (header_of c p) = Some False"
  shows "tcp_server_recv env ops ctx (Some c) pcb (Some p) =
    Some (ERR_OK, ctx, Some (c\<lparr>headers := header_of c p\<rparr>), [Tcp_recved pcb (length (tot_bytes p)), Pbuf_free])"
  using assms(3-5) header_copy[OF assms(1,2), of p]
  by (simp add: tcp_server_recv_def header_of_def[symmetric] Let_def)

lemma recv_post:
  assumes "pbuf_ops_ok ops" "conn_inv c" "con_pcb c = pcb" "tot_bytes p \<noteq> []" "tcp_env_ok env"
    and "is_provision_post (header_of c p) = Some True"
    and "c_str (payload_obj p) = Some s" "find_sub [CR, LF, CR, LF] s = Some i"
    and "parse_wifi_credentials ctx (drop (i + 4) (payload_obj p)) = Some (ok, ctx')"
  shows "tcp_server_recv env ops ctx (Some c) pcb (Some p) =
    (let w = Tcp_write pcb (if ok then http_ok else http_bad_request)
     in if tcp_close_err env = ERR_OK
        then Some (tcp_write_err env, ctx', None, [w, Tcp_clear_callbacks pcb, Tcp_close pcb])
        else Some (ERR_ABRT, ctx', None, [w, Tcp_clear_callbacks pcb, Tcp_close pcb, Tcp_abort pcb]))"
proof -
  have "is_cstring http_bad_request \<and> length http_bad_request < 256"
    by code_simp
  then have "c_snprintf (resp_bytes env) 0 256 http_bad_request =
      Some (http_bad_request @ NUL # drop (length http_bad_request + 1) (resp_bytes env))"
    using assms(5) by (simp add: c_snprintf_def c_strcpy_def blit_def tcp_env_ok_def)
  then have r: "(c_snprintf (resp_bytes env) 0 256 http_bad_request \<bind> c_str) = Some http_bad_request"
    using \<open>is_cstring http_bad_request \<and> _\<close> c_str_terminated by simp
  show ?thesis
    using assms(3,4,6-9) header_copy[OF assms(1,2), of p] r
    by (cases ok) (simp_all add: tcp_server_recv_def header_of_def[symmetric] Let_def tcp_close_client_connection_def)
qed

text \<open>The length in the error response is the length of its body.\<close>

lemma bad_request_length: "http_bad_request = ''HTTP/1.1 400 Bad Request'' @ [LF] @ ''Content-Length: 26'' @ [LF] @
    ''Content-Type: application/json'' @ [CR, LF, CR, LF] @ http_error_body \<and> length http_error_body = 26"
  by code_simp

lemma recv_ctx:
  assumes "tcp_server_recv env ops ctx con pcb p = Some (e, ctx', con', calls)"
  shows "ctx' = ctx \<or> (\<exists>json. parse_wifi_credentials ctx json = Some (True, ctx'))"
  using assms unfolding tcp_server_recv_def
  by (auto simp: bind_eq_Some_conv Let_def split: option.split_asm if_split_asm dest: parse_frame)

lemma recv_wf: "ctx_wf ctx \<Longrightarrow> tcp_server_recv env ops ctx con pcb p = Some (e, ctx', con', calls) \<Longrightarrow> ctx_wf ctx'"
  using recv_ctx parse_wf by metis

section \<open>Starting the access point\<close>

lemma host_starts:
  assumes "\<not> hosting hs" "wifi_config_handler env hs = Some (DT_ERR_OK, hs', calls)"
  shows "hosting hs' \<and> (\<exists>d s l. ap_leases hs' = Some d \<and> dhcp_wf d \<and> ap_server hs' = Some s \<and> server_pcb s = Some l \<and>
    calls = [Wifi_enable_ap ''Dirtie-Setup'' ''letsgetdirtie'', Tcp_listen_callbacks l])"
  using assms
  by (auto simp: wifi_config_handler_def host_provisioning_ap_def Let_def tcp_server_open_def dhcp_server_init_def
      dhcp_socket_new_dgram_def dhcp_wf_def AP_GATEWAY_def AP_NETMASK_def zero_lease_def zero_mac_def dhcp_consts
      split: if_split_asm option.split_asm prod.split_asm)

lemma hosting_stays: "hosting hs \<Longrightarrow> wifi_config_handler env hs = Some (DT_ERR_OK, hs, [])"
  by (simp add: wifi_config_handler_def)

section \<open>A provisioning request\<close>

abbreviation CRLF2 :: string where "CRLF2 \<equiv> [CR, LF, CR, LF]"

text \<open>
  The segment \<open>p\<close> holds the whole request: a POST to the endpoint with header lines \<open>hs\<close> and
  the JSON body, in one buffer that happens to be followed by a NUL.
\<close>

definition is_request :: "tcp_pbuf \<Rightarrow> string \<Rightarrow> string \<Rightarrow> bool" where
  "is_request p hs body \<longleftrightarrow>
     raw_text p = ''POST /provision'' @ hs @ CRLF2 @ body \<and>
     (\<exists>z. payload_obj p = raw_text p @ NUL # z) \<and> is_cstring (raw_text p) \<and>
     find_sub CRLF2 (raw_text p) = Some (15 + length hs)"

lemma provision_post: "conn_inv c \<Longrightarrow> is_request p hs body \<Longrightarrow> is_provision_post (header_of c p) = Some True"
  by (simp add: is_request_def header_of_def is_provision_post_def HTTP_POST_def WIFI_CREDENTIALS_ENDPOINT_def)

lemma request_parts:
  assumes "is_request p hs body"
  shows "tot_bytes p \<noteq> []" "c_str (payload_obj p) = Some (raw_text p)" "find_sub CRLF2 (raw_text p) = Some (15 + length hs)"
    "c_str (drop (15 + length hs + 4) (payload_obj p)) = Some body"
proof -
  have r: "raw_text p = ''POST /provision'' @ hs @ CRLF2 @ body" "is_cstring (raw_text p)"
    "find_sub CRLF2 (raw_text p) = Some (15 + length hs)" "\<exists>z. payload_obj p = raw_text p @ NUL # z"
    using assms unfolding is_request_def by blast+
  then obtain z where z: "payload_obj p = raw_text p @ NUL # z" by blast
  show "tot_bytes p \<noteq> []" using r(1) by (auto simp: raw_text_def)
  show "c_str (payload_obj p) = Some (raw_text p)" unfolding z by (rule c_str_terminated[OF r(2)])
  show "find_sub CRLF2 (raw_text p) = Some (15 + length hs)" by (rule r(3))
  have "payload_obj p = (''POST /provision'' @ hs @ CRLF2) @ body @ NUL # z" unfolding z r(1) by simp
  moreover have "length (''POST /provision'' @ hs @ CRLF2) = 15 + length hs + 4" by simp
  ultimately have "drop (15 + length hs + 4) (payload_obj p) = body @ NUL # z" by (metis append_eq_conv_conj)
  moreover have "is_cstring body" using r(1,2) by simp
  ultimately show "c_str (drop (15 + length hs + 4) (payload_obj p)) = Some body" by (simp add: c_str_terminated)
qed

lemma recv_request:
  assumes "pbuf_ops_ok ops" "conn_inv c" "con_pcb c = pcb" "tcp_env_ok env" "is_request p hs body"
    and "\<And>json. c_str json = Some body \<Longrightarrow> parse_wifi_credentials ctx json = Some (ok, ctx')"
  shows "tcp_server_recv env ops ctx (Some c) pcb (Some p) =
    (let w = Tcp_write pcb (if ok then http_ok else http_bad_request)
     in if tcp_close_err env = ERR_OK
        then Some (tcp_write_err env, ctx', None, [w, Tcp_clear_callbacks pcb, Tcp_close pcb])
        else Some (ERR_ABRT, ctx', None, [w, Tcp_clear_callbacks pcb, Tcp_close pcb, Tcp_abort pcb]))"
  using recv_post[OF assms(1-3) request_parts(1)[OF assms(5)] assms(4) provision_post[OF assms(2,5)]
      request_parts(2,3)[OF assms(5)] assms(6)[OF request_parts(4)[OF assms(5)]]] .

lemma recv_request_None:
  assumes "pbuf_ops_ok ops" "conn_inv c" "con_pcb c = pcb" "is_request p hs body"
    and "\<And>json. c_str json = Some body \<Longrightarrow> parse_wifi_credentials ctx json = None"
  shows "tcp_server_recv env ops ctx (Some c) pcb (Some p) = None"
  using header_copy[OF assms(1,2), of p, folded header_of_def] provision_post[OF assms(2,4)] assms(3)
    request_parts[OF assms(4)] assms(5)[OF request_parts(4)[OF assms(4)]]
  by (simp add: tcp_server_recv_def Let_def del: One_nat_def)

text \<open>Values a client can send in the three fields.\<close>

definition http_value :: "string \<Rightarrow> bool" where
  "http_value v \<longleftrightarrow> is_cstring v \<and> DQ \<notin> set v"

text \<open>A concrete request, connection and environment.\<close>

definition text_pbuf :: "string \<Rightarrow> tcp_pbuf" where
  "text_pbuf s = \<lparr>tot_bytes = map of_char s, payload_obj = s @ [NUL]\<rparr>"

lemma raw_text_pbuf: "raw_text (text_pbuf s) = s"
proof -
  have "unat (of_char c :: u8) = of_char c" for c
  proof -
    have "(of_char c :: u8) = of_nat (of_char c)" by (rule of_nat_of_char[symmetric])
    then show ?thesis by (simp only: unsigned_of_nat) (simp add: take_bit_eq_mod)
  qed
  then show ?thesis by (induction s) (simp_all add: raw_text_def text_pbuf_def)
qed

definition std_tcp_env :: tcp_env where
  "std_tcp_env = \<lparr>tcp_close_err = ERR_OK, tcp_write_err = ERR_OK, resp_bytes = replicate 256 NUL, conn_calloc = True\<rparr>"

definition std_conn :: tcp_conn where
  "std_conn = \<lparr>con_pcb = 5, sent_len = 0, headers = replicate 4096 NUL, header_len = 0, result_len = 0\<rparr>"

lemma std_http_ok: "tcp_env_ok std_tcp_env" "conn_inv std_conn" "con_pcb std_conn = 5"
  by (simp_all add: tcp_env_ok_def std_tcp_env_def conn_inv_def std_conn_def)

definition http_request :: "string \<Rightarrow> string \<Rightarrow> string \<Rightarrow> tcp_pbuf" where
  "http_request s p t = text_pbuf (''POST /provision'' @ '' HTTP/1.1'' @ CRLF2 @ provision_body s p t)"

lemma http_request_ok:
  assumes "http_value s" "http_value p" "http_value t"
  shows "is_request (http_request s p t) '' HTTP/1.1'' (provision_body s p t)"
  using assms unfolding is_request_def http_request_def raw_text_pbuf
  by (simp add: text_pbuf_def http_value_def provision_body_eq json_query_def)

text \<open>The request of a phone: the credentials end up in the context.\<close>

lemma recv_provisions:
  assumes "pbuf_ops_ok ops" "conn_inv c" "con_pcb c = pcb" "tcp_env_ok env" "tcp_close_err env = ERR_OK"
    and "is_request p hs (provision_body s w t)" "ctx_wf ctx" "http_value s" "http_value w" "http_value t"
    and "length s < 64" "length w < 64" "length t < 64"
  shows "\<exists>ctx'. tcp_server_recv env ops ctx (Some c) pcb (Some p) =
      Some (tcp_write_err env, ctx', None, [Tcp_write pcb http_ok, Tcp_clear_callbacks pcb, Tcp_close pcb]) \<and>
    wifi_configd ctx' \<and> has_cstring (wifi_ssid ctx') s \<and> has_cstring (wifi_pass ctx') w \<and>
    has_cstring (prv_token ctx') t \<and> loop_state ctx' = loop_state ctx"
proof -
  have f: "length (wifi_ssid ctx) = 64" "length (wifi_pass ctx) = 64" "length (prv_token ctx) = 64"
    using assms(7) by (simp_all add: ctx_wf_def)
  have v: "is_cstring s" "is_cstring w" "is_cstring t" "DQ \<notin> set s" "DQ \<notin> set w" "DQ \<notin> set t"
    using assms(8-10) by (simp_all add: http_value_def)
  obtain f1 f2 f3 where
    s: "store_field (wifi_ssid ctx) s = Some f1" "has_cstring f1 s" "store_field (wifi_pass ctx) w = Some f2" "has_cstring f2 w"
      "store_field (prv_token ctx) t = Some f3" "has_cstring f3 t"
    using store_field_holds[OF f(1) assms(11) v(1)] store_field_holds[OF f(2) assms(12) v(2)]
      store_field_holds[OF f(3) assms(13) v(3)] by blast
  let ?c = "ctx\<lparr>wifi_ssid := f1, wifi_pass := f2, prv_token := f3, wifi_configd := True\<rparr>"
  have "parse_wifi_credentials ctx json = Some (True, ?c)" if "c_str json = Some (provision_body s w t)" for json
    using parse_body[OF assms(7) v(4-6,1-3) that] s assms(11-13) by simp
  from recv_request[OF assms(1-4,6) this] show ?thesis
    using s assms(5) by (intro exI[of _ ?c]) simp
qed

section \<open>Properties\<close>

text \<open>
  C15 (http_provisions). A POST of the three credentials is answered with 200 and stores them in the context, each as
  a C string, marks Wi-Fi configured and closes the connection.
\<close>

theorem http_provisions:
  assumes "pbuf_ops_ok ops" "conn_inv c" "con_pcb c = pcb" "tcp_env_ok env" "tcp_close_err env = ERR_OK"
    and "is_request p hs (provision_body s w t)" "ctx_wf ctx" "http_value s" "http_value w" "http_value t"
    and "length s < 64" "length w < 64" "length t < 64"
  shows "\<exists>ctx'. tcp_server_recv env ops ctx (Some c) pcb (Some p) =
      Some (tcp_write_err env, ctx', None, [Tcp_write pcb http_ok, Tcp_clear_callbacks pcb, Tcp_close pcb]) \<and>
    wifi_configd ctx' \<and> has_cstring (wifi_ssid ctx') s \<and> has_cstring (wifi_pass ctx') w \<and>
    has_cstring (prv_token ctx') t \<and> loop_state ctx' = loop_state ctx"
  by (rule recv_provisions[OF assms])

theorem http_provisions_witness:
  "\<exists>ctx'. tcp_server_recv std_tcp_env std_pbuf zero_ctx (Some std_conn) 5 (Some (http_request ''Home'' ''pass'' ''tok'')) =
     Some (ERR_OK, ctx', None, [Tcp_write 5 http_ok, Tcp_clear_callbacks 5, Tcp_close 5]) \<and>
     wifi_configd ctx' \<and> has_cstring (wifi_ssid ctx') ''Home''"
proof -
  have v: "http_value ''Home''" "http_value ''pass''" "http_value ''tok''" by (simp_all add: http_value_def)
  from http_provisions[OF std_pbuf_ok std_http_ok(2,3,1) _ http_request_ok[OF v] ctx_wf_zero v]
  show ?thesis by (auto simp: std_tcp_env_def)
qed

text \<open>
  If one of the values is longer than 64 characters the answer is 400 with a JSON error and the
  context does not change.
\<close>

theorem http_too_long:
  assumes "pbuf_ops_ok ops" "conn_inv c" "con_pcb c = pcb" "tcp_env_ok env" "tcp_close_err env = ERR_OK"
    and "is_request p hs (provision_body s w t)" "ctx_wf ctx" "http_value s" "http_value w" "http_value t"
    and "64 < max (length s) (max (length w) (length t))"
  shows "tcp_server_recv env ops ctx (Some c) pcb (Some p) =
    Some (tcp_write_err env, ctx, None, [Tcp_write pcb http_bad_request, Tcp_clear_callbacks pcb, Tcp_close pcb])"
proof -
  have v: "is_cstring s" "is_cstring w" "is_cstring t" "DQ \<notin> set s" "DQ \<notin> set w" "DQ \<notin> set t"
    using assms(8-10) by (simp_all add: http_value_def)
  have "parse_wifi_credentials ctx json = Some (False, ctx)" if "c_str json = Some (provision_body s w t)" for json
    using parse_body[OF assms(7) v(4-6,1-3) that] assms(11) by (auto simp: max_def split: if_splits)
  from recv_request[OF assms(1-4,6) this] show ?thesis using assms(5) by simp
qed

theorem http_too_long_witness:
  "tcp_server_recv std_tcp_env std_pbuf zero_ctx (Some std_conn) 5 (Some (http_request ''Home'' (replicate 65 (CHR ''p'')) ''tok'')) =
     Some (ERR_OK, zero_ctx, None, [Tcp_write 5 http_bad_request, Tcp_clear_callbacks 5, Tcp_close 5])"
proof -
  have v: "http_value ''Home''" "http_value (replicate 65 (CHR ''p''))" "http_value ''tok''"
    by (simp_all add: http_value_def is_cstring_def)
  from http_too_long[OF std_pbuf_ok std_http_ok(2,3,1) _ http_request_ok[OF v] ctx_wf_zero v]
  show ?thesis by (simp add: std_tcp_env_def)
qed

text \<open>
  C16 (http_64_overflow). A value of exactly 64 characters passes the length check, and its terminator is written
  behind the 64-byte field: undefined behaviour.
\<close>

theorem http_64_overflow:
  assumes "pbuf_ops_ok ops" "conn_inv c" "con_pcb c = pcb"
    and "is_request p hs (provision_body s w t)" "ctx_wf ctx" "http_value s" "http_value w" "http_value t"
    and "max (length s) (max (length w) (length t)) = 64"
  shows "tcp_server_recv env ops ctx (Some c) pcb (Some p) = None"
proof (rule recv_request_None[OF assms(1-4)])
  fix json assume j: "c_str json = Some (provision_body s w t)"
  have v: "is_cstring s" "is_cstring w" "is_cstring t" "DQ \<notin> set s" "DQ \<notin> set w" "DQ \<notin> set t"
    using assms(6-8) by (simp_all add: http_value_def)
  have f: "length (wifi_ssid ctx) = 64" "length (wifi_pass ctx) = 64" "length (prv_token ctx) = 64"
    using assms(5) by (simp_all add: ctx_wf_def)
  have "length s \<le> 64" "length w \<le> 64" "length t \<le> 64" "length s = 64 \<or> length w = 64 \<or> length t = 64"
    using assms(9) by (auto simp: max_def split: if_splits)
  then show "parse_wifi_credentials ctx json = None"
    using store_field_full[OF f(1)] store_field_full[OF f(2)] store_field_full[OF f(3)]
    unfolding parse_body[OF assms(5) v(4-6,1-3) j] by (auto simp: bind_eq_None_conv)
qed

theorem http_64_overflow_witness:
  "tcp_server_recv std_tcp_env std_pbuf zero_ctx (Some std_conn) 5 (Some (http_request (replicate 64 (CHR ''s'')) ''pass'' ''tok'')) = None"
proof -
  have v: "http_value (replicate 64 (CHR ''s''))" "http_value ''pass''" "http_value ''tok''"
    by (simp_all add: http_value_def is_cstring_def)
  show ?thesis by (rule http_64_overflow[OF std_pbuf_ok std_http_ok(2,3) http_request_ok[OF v] ctx_wf_zero v]) simp
qed

text \<open>
  The first acknowledgement on a connection closes it, because the lengths it is compared with
  are never set.
\<close>

theorem first_ack_closes:
  assumes "tcp_server_accept env state (Some pcb) ERR_OK = (ERR_OK, Some c, calls)" "tcp_close_err env' = ERR_OK"
  shows "tcp_server_sent env' (Some c) pcb len = Some (ERR_OK, None, [Tcp_clear_callbacks pcb, Tcp_close pcb])"
proof -
  have "con_pcb c = pcb" using assms(1) by (auto simp: tcp_server_accept_def split: if_splits)
  with sent_closes[OF accept_conn_inv[OF assms(1)]] assms(2) show ?thesis by simp
qed

theorem first_ack_closes_witness:
  "\<exists>c calls. tcp_server_accept std_tcp_env \<lparr>server_pcb = Some 1, srv_complete = False, srv_gw = AP_GATEWAY\<rparr> (Some 5) ERR_OK =
     (ERR_OK, Some c, calls) \<and> tcp_server_sent std_tcp_env (Some c) 5 1 = Some (ERR_OK, None, [Tcp_clear_callbacks 5, Tcp_close 5])"
proof -
  have "tcp_close_err std_tcp_env = ERR_OK" by (simp add: std_tcp_env_def)
  moreover obtain c calls where
    "tcp_server_accept std_tcp_env \<lparr>server_pcb = Some 1, srv_complete = False, srv_gw = AP_GATEWAY\<rparr> (Some 5) ERR_OK = (ERR_OK, Some c, calls)"
    by (simp add: tcp_server_accept_def std_tcp_env_def)
  ultimately show ?thesis using first_ack_closes by blast
qed

end
