(* ===== verification/Main_Loop.thy ===== *)
theory Main_Loop
  imports Credentials Connect Sensor Basicio Host
begin

text \<open>
  Model of \<open>src/main.c\<close> and of the dispatch table of \<open>src/state/state.c\<close>: the start of the
  firmware, one turn of its endless loop, and the device as a transition system in which
  turns of the loop interleave with the timer, the HTTP server and the network callbacks.
\<close>

section \<open>The device\<close>

text \<open>
  The context, the heap of log lines, the flash sector, the access point, and the globals
  of the MQTT callbacks.
\<close>

record device =
  dev_ctx :: app_ctx
  dev_heap :: heap
  dev_flash :: string
  dev_host :: host_state
  dev_inpub :: inpub

text \<open>The environments of the calls one turn of the loop makes.\<close>

record loop_env =
  le_flash :: "nat \<Rightarrow> flash_dev"
  le_ap :: ap_env
  le_mqtt :: mqtt_env
  le_i2c :: "nat \<Rightarrow> i2c_env"
  le_ntp :: ntp_env
  le_ntp_log :: log_env
  le_err_log :: log_env
  le_update_log :: log_env

datatype dev_call =
    On_mqtt mqtt_call
  | On_tcp tcp_call
  | On_ntp ntp_call
  | On_gpio gpio_call
  | Sleep_ms nat

section \<open>The handlers of the main file\<close>

definition SAMPLE_RATE :: int where "SAMPLE_RATE = 5000"

text \<open>The result is whether the timer repeats.\<close>

definition sample_rate_update :: "app_ctx \<Rightarrow> bool \<times> app_ctx" where
  "sample_rate_update ctx = (True, if mqtt_initd ctx then ctx\<lparr>set_publish := True\<rparr> else ctx)"

definition throttle_listen_handler :: "dt_err \<times> dev_call list" where
  "throttle_listen_handler = (DT_ERR_OK, [Sleep_ms 100])"

definition batt_listen_handler :: dt_err where
  "batt_listen_handler = DT_ERR_OK"

section \<open>The dispatch table\<close>

text \<open>
  \<open>LOOP_STATE_CALLBACKS[ctx->loop_state](ctx)\<close>. \<open>LOOP_STATE_COUNT\<close> is one past the table. The loop
  uses the value of the handler, so a handler that returned none makes the turn undefined.
\<close>

definition run_handler :: "loop_env \<Rightarrow> device \<Rightarrow> (int \<times> device \<times> dev_call list) option" where
  "run_handler env d =
     (let ctx = dev_ctx d; h = dev_heap d
      in case loop_state ctx of
           FLASH_INIT \<Rightarrow> do {
             (err, ctx', fl) \<leftarrow> flash_init_handler (le_flash env) ctx (dev_flash d);
             Some (err_code err, d\<lparr>dev_ctx := ctx', dev_flash := fl\<rparr>, [])
           }
         | WIFI_CONFIG \<Rightarrow> do {
             (err, hs, calls) \<leftarrow> wifi_config_handler (le_ap env) (dev_host d);
             Some (err_code err, d\<lparr>dev_host := hs\<rparr>, map On_tcp calls)
           }
         | FLASH_WRITE \<Rightarrow> do {
             (err, ctx', fl) \<leftarrow> flash_write_handler (le_flash env) ctx (dev_flash d);
             Some (err_code err, d\<lparr>dev_ctx := ctx', dev_flash := fl\<rparr>, [])
           }
         | MQTT_INIT \<Rightarrow> do {
             (ret, ctx', h', calls) \<leftarrow> mqtt_init_handler (le_mqtt env) ctx h;
             Some (ret, d\<lparr>dev_ctx := ctx', dev_heap := h'\<rparr>, map On_mqtt calls)
           }
         | SENSE_INIT \<Rightarrow>
             (let (ret, ctx') = sense_init_handler (le_i2c env 0) ctx
              in Some (ret, d\<lparr>dev_ctx := ctx'\<rparr>, []))
         | NTP_SYNC \<Rightarrow> do {
             (err, ctx', h', calls) \<leftarrow> ntp_sync_handler (le_ntp env) (le_ntp_log env) ctx h;
             Some (err_code err, d\<lparr>dev_ctx := ctx', dev_heap := h'\<rparr>, map On_ntp calls)
           }
         | MQTT_PUBLISH \<Rightarrow> do {
             (err, calls) \<leftarrow> mqtt_publish_handler (le_mqtt env) ctx;
             Some (err_code err, d, map On_mqtt calls)
           }
         | MQTT_LISTEN \<Rightarrow>
             (let (err, ctx') = mqtt_listen_handler ctx in Some (err_code err, d\<lparr>dev_ctx := ctx'\<rparr>, []))
         | BATT_LISTEN \<Rightarrow> Some (err_code batt_listen_handler, d, [])
         | SENSE_LISTEN \<Rightarrow> do {
             (ret, ctx') \<leftarrow> sense_listen_handler (le_i2c env 0) (le_i2c env 1) ctx;
             err \<leftarrow> ret;
             Some (err, d\<lparr>dev_ctx := ctx'\<rparr>, [])
           }
         | LOGDUMP \<Rightarrow> do {
             (err, h', calls) \<leftarrow> logdump_handler (le_mqtt env) ctx h;
             Some (err_code err, d\<lparr>dev_heap := h'\<rparr>, map On_mqtt calls)
           }
         | THROTTLE \<Rightarrow> (let (err, calls) = throttle_listen_handler in Some (err_code err, d, calls))
         | LOOP_STATE_COUNT \<Rightarrow> None)"

section \<open>The loop\<close>

text \<open>\<open>dlog(ctx, LOG_ERR, "%d\n", err)\<close> when the handler returned an error.\<close>

definition log_handler_err :: "log_env \<Rightarrow> int \<Rightarrow> device \<Rightarrow> device option" where
  "log_handler_err lenv err d =
     (if err \<noteq> 0
      then do {
        (_, ctx', h') \<leftarrow> dlog lenv (dev_ctx d) (dev_heap d) LOG_ERR (dec_int err @ [NL]);
        Some (d\<lparr>dev_ctx := ctx', dev_heap := h'\<rparr>)
      }
      else Some d)"

definition loop_turn :: "loop_env \<Rightarrow> device \<Rightarrow> (device \<times> dev_call list) option" where
  "loop_turn env d = do {
     (err, d1, calls) \<leftarrow> run_handler env d;
     d2 \<leftarrow> log_handler_err (le_err_log env) err d1;
     (ctx3, h3) \<leftarrow> update_state (le_update_log env) (dev_ctx d2) (dev_heap d2);
     let (_, ctx4, gpios) = basicio_init_handler ctx3;
     Some (d2\<lparr>dev_ctx := ctx4, dev_heap := h3\<rparr>, calls @ map On_gpio gpios)
   }"

text \<open>The start, up to the loop; \<open>Inl\<close> is the exit with status 1 when the radio does not start.\<close>

record start_env =
  st_hub_loc :: string
  st_log :: "nat \<Rightarrow> log_env"
  st_cyw43 :: int
  st_calloc :: bool

definition main_start :: "start_env \<Rightarrow> string \<Rightarrow> (int + device) option" where
  "main_start env fl = do {
     require (st_calloc env);
     hub \<leftarrow> c_strcpy (hub_loc zero_ctx) 0 (st_hub_loc env);
     let ctx0 = zero_ctx\<lparr>hub_loc := hub\<rparr>;
     (_, ctx1, h1) \<leftarrow> dlog (st_log env 0) ctx0 \<lparr>blocks = Map.empty, next_ptr = 0\<rparr> LOG_INFO
                       (''HUB_LOC set to '' @ st_hub_loc env @ [NL]);
     if st_cyw43 env \<noteq> 0
     then do {
       (_, _, _) \<leftarrow> dlog (st_log env 1) ctx1 h1 LOG_ERR (''failed to initialize '' @ [NL]);
       Some (Inl 1)
     }
     else do {
       (_, ctx2, h2) \<leftarrow> dlog (st_log env 1) ctx1 h1 LOG_INFO (''CYW43 Initialized'' @ [NL]);
       let (_, ctx3, _) = basicio_init_handler ctx2;
       Some (Inr \<lparr>dev_ctx = ctx3, dev_heap = h2, dev_flash = fl,
                  dev_host = \<lparr>hosting = False, ap_server = None, ap_leases = None\<rparr>,
                  dev_inpub = inpub_start\<rparr>)
     }
   }"

section \<open>The device as a transition system\<close>

text \<open>
  Between two turns of the loop the timer may fire, a request may arrive at the HTTP server
  or the DHCP server, the NTP client may get an event, and a publish may be
  acknowledged. A callback runs to its end.
\<close>

datatype dev_event =
    Turn loop_env
  | Timer
  | Http tcp_env pbuf_ops "tcp_conn option" nat "tcp_pbuf option"
  | Dhcp_packet dhcp_env pbuf_ops "u8 list"
  | Ntp ntp_event
  | Published

inductive dev_step :: "device \<Rightarrow> dev_event \<Rightarrow> device \<Rightarrow> bool" where
  step_turn: "loop_turn env d = Some (d', calls) \<Longrightarrow> dev_step d (Turn env) d'"
| step_timer: "sample_rate_update (dev_ctx d) = (again, ctx') \<Longrightarrow> dev_step d Timer (d\<lparr>dev_ctx := ctx'\<rparr>)"
| step_http: "tcp_server_recv env ops (dev_ctx d) con pcb p = Some (e, ctx', con', calls) \<Longrightarrow>
    dev_step d (Http env ops con pcb p) (d\<lparr>dev_ctx := ctx'\<rparr>)"
| step_dhcp: "ap_leases (dev_host d) = Some srv \<Longrightarrow> pbuf_ops_ok ops \<Longrightarrow> stack_ok env \<Longrightarrow>
    dhcp_server_process env ops srv p = Some (srv', sent) \<Longrightarrow>
    dev_step d (Dhcp_packet env ops p) (d\<lparr>dev_host := (dev_host d)\<lparr>ap_leases := Some srv'\<rparr>\<rparr>)"
| step_ntp: "ntp_state (dev_ctx d) = Some st \<Longrightarrow> ntp_step st ev = Some (st', calls) \<Longrightarrow>
    dev_step d (Ntp ev) (d\<lparr>dev_ctx := (dev_ctx d)\<lparr>ntp_state := Some st'\<rparr>\<rparr>)"
| step_published: "mqtt_client (dev_ctx d) = Some st \<Longrightarrow>
    dev_step d Published (d\<lparr>dev_ctx := (dev_ctx d)\<lparr>mqtt_client := Some (mqtt_pub_request_cb st)\<rparr>\<rparr>)"

definition dev_started :: "device \<Rightarrow> bool" where
  "dev_started d \<longleftrightarrow> (\<exists>env fl. main_start env fl = Some (Inr d))"

abbreviation reachable :: "device \<Rightarrow> bool" where
  "reachable \<equiv> reaches dev_started dev_step"

inductive_cases dev_step_TurnE: "dev_step d (Turn env) d'"
inductive_simps dev_step_Turn: "dev_step d (Turn env) d'"
inductive_simps dev_step_Timer: "dev_step d Timer d'"

section \<open>What the handlers may change\<close>

lemma dlog_frame:
  assumes "dlog env ctx h lvl m = Some (e, ctx', h')"
  shows "\<exists>slots dump. ctx' = ctx\<lparr>logdump := slots, dump_logs := dump\<rparr> \<and> length slots = length (logdump ctx) \<and>
    (\<forall>i < length slots. logdump ctx ! i \<noteq> None \<longrightarrow> slots ! i = logdump ctx ! i) \<and>
    (\<forall>p. Some p \<in> set slots \<longrightarrow> Some p \<in> set (logdump ctx) \<or> p = next_ptr h) \<and>
    next_ptr h \<le> next_ptr h' \<and> (Some (next_ptr h) \<in> set slots \<longrightarrow> Some (next_ptr h) \<in> set (logdump ctx) \<or> next_ptr h < next_ptr h') \<and>
    (\<forall>p < next_ptr h. blocks h' p = blocks h p)"
proof -
  consider "log_calloc env = False" | "log_calloc env" by blast
  then show ?thesis
  proof cases
    case 1
    with assms show ?thesis by (intro exI[of _ "logdump ctx"] exI[of _ "dump_logs ctx"]) (auto simp: dlog_def)
  next
    case 2
    from slots_split[of "logdump ctx"] show ?thesis
    proof (elim disjE exE)
      fix ps assume s: "logdump ctx = map Some ps"
      have "\<exists>d. ctx' = ctx\<lparr>dump_logs := d\<rparr> \<and> blocks h' = (blocks h)(next_ptr h := None) \<and> next_ptr h' = Suc (next_ptr h)"
        using assms 2
        by (clarsimp simp: dlog_def s find_slot_full heap_alloc_def heap_free_def bind_eq_Some_conv) (rule exI, rule refl)
      then obtain d where d: "ctx' = ctx\<lparr>dump_logs := d\<rparr>" and h: "blocks h' = (blocks h)(next_ptr h := None)"
        "next_ptr h' = Suc (next_ptr h)" by blast
      have "ctx' = ctx\<lparr>logdump := logdump ctx, dump_logs := d\<rparr>" unfolding d by (cases ctx) simp
      with h show ?thesis by (intro exI[of _ "logdump ctx"] exI[of _ d]) auto
    next
      fix ps rest assume s: "logdump ctx = map Some ps @ None # rest"
      then show ?thesis
        using assms 2
        by (auto simp: dlog_def find_slot_free heap_alloc_def bind_eq_Some_conv list_update_append nth_append nth_Cons
            split: nat.splits intro!: exI[of _ "map Some ps @ Some (next_ptr h) # rest"])
    qed
  qed
qed

text \<open>
  No handler clears a flag, unterminates a text field, requests a reset or breaks the
  invariant of the NTP client.
\<close>

definition ntp_fine :: "app_ctx \<Rightarrow> bool" where
  "ntp_fine ctx \<longleftrightarrow> (\<forall>st. ntp_state ctx = Some st \<longrightarrow> ntp_inv st)"

definition grows :: "app_ctx \<Rightarrow> app_ctx \<Rightarrow> bool" where
  "grows c c' \<longleftrightarrow> flags_grow c c' \<and> (ctx_wf c \<longrightarrow> ctx_wf c') \<and> reset c' = reset c \<and> (ntp_fine c \<longrightarrow> ntp_fine c')"

named_theorems grows_intros \<open>every handler only grows the context\<close>

lemma grows_refl [simp, grows_intros]: "grows c c"
  by (simp add: grows_def)

lemma grows_trans: "grows a b \<Longrightarrow> grows b c \<Longrightarrow> grows a c"
  unfolding grows_def using flags_grow_trans by blast

lemma dlog_grows [grows_intros]: "dlog env ctx h lvl m = Some (e, ctx', h') \<Longrightarrow> grows ctx ctx'"
  using dlog_frame[of env ctx h lvl m e ctx' h'] by (auto simp: grows_def flags_grow_def ctx_wf_def ntp_fine_def)

lemma unesc_loop_wf:
  "unesc_loop buf e fin = Some b \<Longrightarrow> length b = length buf \<and> (NUL \<in> set buf \<longrightarrow> NUL \<in> set b)"
proof (induction buf e fin arbitrary: b rule: unesc_loop.induct)
  case (1 buf e fin)
  show ?case
  proof (cases "e < fin")
    case False
    with "1.prems" show ?thesis by (simp add: unesc_loop.simps[of buf e fin])
  next
    case True
    with "1.prems" obtain c where c: "rd buf e = Some c" by (auto simp: unesc_loop.simps[of buf e fin] bind_eq_Some_conv)
    show ?thesis
    proof (cases "c = CHR 0x5C")
      case False
      with "1.prems" True c "1.IH"(2)[OF True c False] show ?thesis by (simp add: unesc_loop.simps[of buf e fin])
    next
      case c5: True
      with "1.prems" True c obtain s buf' where s: "c_str (drop (e + 1) buf) = Some s" "c_strcpy buf e s = Some buf'"
        "unesc_loop buf' (e + 1) (fin - 1) = Some b"
        by (auto simp: unesc_loop.simps[of buf e fin] bind_eq_Some_conv)
      have "length buf' = length buf \<and> NUL \<in> set buf'"
        using s(2) by (auto simp: c_strcpy_def blit_def split: if_splits)
      with "1.IH"(1)[OF True c c5 s(1,2)] s(3) show ?thesis by auto
    qed
  qed
qed

lemma read_val_wf:
  assumes "read_val dev key out fl = Some (e, out')"
  shows "length out' = length out \<and> (NUL \<in> set out \<longrightarrow> NUL \<in> set out')"
proof -
  consider "out' = out" | a v o1 o2 t where "blit out 0 v = Some o1" "wr o1 a NUL = Some o2" "unesc_loop o2 0 t = Some out'"
    using assms unfolding read_val_def
    by (auto simp: bind_eq_Some_conv Let_def dest!: case_opt split: if_split_asm prod.split_asm)
  then show ?thesis
  proof cases
    case 2
    then have "length o2 = length out" "NUL \<in> set o2"
      using blit_length[of out 0 v o1] by (auto simp: wr_def set_update_memI split: if_splits)
    with unesc_loop_wf[OF 2(3)] show ?thesis by simp
  qed simp
qed

lemmas grows_defs = grows_def flags_grow_def ctx_wf_def ntp_fine_def

lemma grows_read:
  "read_val dev k (wifi_ssid ctx) fl = Some (e, b) \<Longrightarrow> grows ctx (ctx\<lparr>wifi_ssid := b\<rparr>)"
  "read_val dev k (wifi_pass ctx) fl = Some (e, b) \<Longrightarrow> grows ctx (ctx\<lparr>wifi_pass := b\<rparr>)"
  "read_val dev k (prv_token ctx) fl = Some (e, b) \<Longrightarrow> grows ctx (ctx\<lparr>prv_token := b\<rparr>)"
  by (auto dest!: read_val_wf simp: grows_defs)

lemma grows_loaded:
  "grows ctx (ctx\<lparr>flash_initd := True\<rparr>)"
  "grows ctx (ctx\<lparr>wifi_configd := True, flash_initd := True, flash_written := True\<rparr>)"
  by (simp_all add: grows_defs)


lemma flash_init_grows [grows_intros]:
  "flash_init_handler dev ctx fl = Some (e, ctx', fl') \<Longrightarrow> grows ctx ctx'"
  unfolding flash_init_handler_def Let_def
  by (elim some_elims; simp; clarsimp dest!: read_val_wf simp: grows_defs)

lemma flash_write_grows [grows_intros]:
  "flash_write_handler dev ctx fl = Some (e, ctx', fl') \<Longrightarrow> grows ctx ctx'"
  by (auto simp: flash_write_handler_def bind_eq_Some_conv grows_defs split: if_split_asm)

lemma log_return_grows [grows_intros]:
  "log_return lenv ctx h msg ret calls = Some (r, ctx', h', c) \<Longrightarrow> grows ctx ctx'"
  by (auto simp: log_return_def bind_eq_Some_conv intro: grows_intros)

lemma grows_client: "grows ctx (ctx\<lparr>mqtt_client := c\<rparr>)" and grows_mqtt: "grows ctx (ctx\<lparr>mqtt_initd := True\<rparr>)"
  by (simp_all add: grows_defs)

lemma mqtt_init_finish_grows:
  "mqtt_init_finish env ctx h calls = Some (r, ctx', h', c) \<Longrightarrow> grows ctx ctx'"
  by (auto simp: mqtt_init_finish_def bind_eq_Some_conv grows_mqtt split: if_split_asm intro: grows_intros)

lemma grows_from_client: "grows (ctx\<lparr>mqtt_client := c\<rparr>) ctx' \<Longrightarrow> grows ctx ctx'"
  using grows_trans grows_client by blast

lemma mqtt_init_grows [grows_intros]:
  "mqtt_init_handler env ctx h = Some (r, ctx', h', c) \<Longrightarrow> grows ctx ctx'"
  unfolding mqtt_init_handler_def Let_def
  by (elim some_elims; hypsubst?; (drule log_return_grows mqtt_init_finish_grows)?; (drule dlog_grows)?;
      (drule dlog_grows)?; (drule grows_from_client)?; (drule grows_from_client)?; meson grows_trans)

lemma sense_init_grows [grows_intros]: "sense_init_handler env ctx = (r, ctx') \<Longrightarrow> grows ctx ctx'"
  by (auto simp: sense_init_handler_def grows_defs split: prod.split_asm if_split_asm)

lemma sense_listen_grows [grows_intros]:
  "sense_listen_handler e1 e2 ctx = Some (r, ctx') \<Longrightarrow> grows ctx ctx'"
  by (auto simp: sense_listen_handler_def bind_eq_Some_conv grows_defs)

lemma ntp_sync_grows [grows_intros]:
  assumes "ntp_sync_handler env lenv ctx h = Some (r, ctx', h', c)" shows "grows ctx ctx'"
proof -
  define ctx1 where "ctx1 = (if ntp_state ctx = None then ctx\<lparr>ntp_state := ntp_init env\<rparr> else ctx)"
  have g1: "grows ctx ctx1"
    by (auto simp: ctx1_def grows_defs ntp_init_def ntp_inv_def split: if_splits)
  show ?thesis
  proof (cases "ntp_state ctx1")
    case None
    with assms have "grows ctx1 ctx'"
      by (auto simp: ntp_sync_handler_def ctx1_def[symmetric] Let_def bind_eq_Some_conv intro: dlog_grows)
    with g1 show ?thesis by (rule grows_trans)
  next
    case (Some st)
    with assms ntp_poll_inv[of st env] have "grows ctx1 ctx'"
      by (auto simp: ntp_sync_handler_def ctx1_def[symmetric] Let_def grows_defs split: prod.split_asm if_split_asm)
    with g1 show ?thesis by (rule grows_trans)
  qed
qed

lemma recv_grows [grows_intros]:
  assumes "tcp_server_recv env ops ctx con pcb p = Some (e, ctx', con', calls)" shows "grows ctx ctx'"
  using recv_ctx[OF assms] recv_wf[OF _ assms] parse_frame[of ctx]
  by (fastforce simp: grows_def flags_grow_def ntp_fine_def)

section \<open>The invariant of the device\<close>

text \<open>Every log slot was filled from an earlier allocation.\<close>

definition slots_old :: "app_ctx \<Rightarrow> heap \<Rightarrow> bool" where
  "slots_old ctx h \<longleftrightarrow> (\<forall>p. Some p \<in> set (logdump ctx) \<longrightarrow> p < next_ptr h)"

text \<open>A slot, once filled, keeps its pointer.\<close>

definition slots_kept :: "app_ctx \<Rightarrow> app_ctx \<Rightarrow> bool" where
  "slots_kept c c' \<longleftrightarrow> (\<forall>i p. i < length (logdump c) \<longrightarrow> logdump c ! i = Some p \<longrightarrow>
     i < length (logdump c') \<and> logdump c' ! i = Some p)"

definition dev_inv :: "device \<Rightarrow> bool" where
  "dev_inv d \<longleftrightarrow> ctx_wf (dev_ctx d) \<and> stage_inv (dev_ctx d) \<and> \<not> reset (dev_ctx d) \<and> ntp_fine (dev_ctx d) \<and>
     slots_old (dev_ctx d) (dev_heap d) \<and> (\<forall>srv. ap_leases (dev_host d) = Some srv \<longrightarrow> dhcp_wf srv)"

text \<open>What one handler does to the logs: it appends, or rewrites and frees blocks.\<close>

definition log_step :: "app_ctx \<Rightarrow> heap \<Rightarrow> app_ctx \<Rightarrow> heap \<Rightarrow> bool" where
  "log_step c h c' h' \<longleftrightarrow> slots_kept c c' \<and> next_ptr h \<le> next_ptr h' \<and> (slots_old c h \<longrightarrow> slots_old c' h')"

lemma log_step_refl: "log_step c h c h" and log_step_same: "logdump c' = logdump c \<Longrightarrow> log_step c h c' h"
  by (simp_all add: log_step_def slots_kept_def slots_old_def)

lemma log_step_trans: "log_step c h c1 h1 \<Longrightarrow> log_step c1 h1 c2 h2 \<Longrightarrow> log_step c h c2 h2"
  unfolding log_step_def slots_kept_def by (meson le_trans)

lemma dlog_log_step: "dlog env c h lvl m = Some (e, c', h') \<Longrightarrow> log_step c h c' h'"
  using dlog_frame[of env c h lvl m e c' h']
  by (fastforce simp: log_step_def slots_kept_def slots_old_def)

lemma heap_next_ptr:
  "heap_free p h = Some h' \<Longrightarrow> next_ptr h' = next_ptr h"
  "heap_store p b h = Some h' \<Longrightarrow> next_ptr h' = next_ptr h"
  by (auto simp: heap_free_def heap_store_def split: option.splits)

lemma free_logs_next_ptr: "free_logs c h = Some h' \<Longrightarrow> next_ptr h' = next_ptr h"
proof -
  have "free_slots s g = Some g' \<Longrightarrow> next_ptr g' = next_ptr g" for s g g'
    by (induction s g rule: free_slots.induct) (auto simp: bind_eq_Some_conv dest: heap_next_ptr)
  then show "free_logs c h = Some h' \<Longrightarrow> next_ptr h' = next_ptr h" by (simp add: free_logs_def)
qed

lemma logdump_loop_next_ptr:
  "logdump_loop env now hwnow i slots h ap = Some (h', r) \<Longrightarrow> next_ptr h' = next_ptr h"
proof (induction slots arbitrary: i h ap)
  case (Cons x slots)
  show ?case
  proof (cases x)
    case (Some p)
    show ?thesis
      by (insert Cons.prems, unfold Some logdump_loop.simps, elim some_elims; drule heap_next_ptr(2); (drule Cons.IH)?; simp)
  qed (use Cons.prems in simp)
qed simp

lemma logdump_fn_next_ptr: "logdump_fn env ctx h = Some (e, h', calls) \<Longrightarrow> next_ptr h' = next_ptr h"
  unfolding logdump_fn_def Let_def
  by (auto split: prod.split_asm dt_err.split_asm option.split_asm; elim some_elims;
      auto split: sum.split_asm elim!: some_elims dest!: logdump_loop_next_ptr free_logs_next_ptr)

section \<open>One turn\<close>

text \<open>What running a handler preserves.\<close>

definition handler_ok :: "device \<Rightarrow> device \<Rightarrow> bool" where
  "handler_ok d d' \<longleftrightarrow> grows (dev_ctx d) (dev_ctx d') \<and> log_step (dev_ctx d) (dev_heap d) (dev_ctx d') (dev_heap d') \<and>
     ((\<forall>srv. ap_leases (dev_host d) = Some srv \<longrightarrow> dhcp_wf srv) \<longrightarrow>
      (\<forall>srv. ap_leases (dev_host d') = Some srv \<longrightarrow> dhcp_wf srv))"

lemma handler_ok_trans: "handler_ok a b \<Longrightarrow> handler_ok b c \<Longrightarrow> handler_ok a c"
  unfolding handler_ok_def using grows_trans log_step_trans by blast

lemma flash_handlers_logs:
  "flash_init_handler dev ctx fl = Some (e, ctx', fl') \<Longrightarrow> logdump ctx' = logdump ctx"
  "flash_write_handler dev ctx fl = Some (e, ctx', fl') \<Longrightarrow> logdump ctx' = logdump ctx"
  unfolding flash_init_handler_def flash_write_handler_def Let_def
  by (elim some_elims; auto)+

lemma log_return_step: "log_return lenv ctx h msg ret calls = Some (r, ctx', h', c) \<Longrightarrow> log_step ctx h ctx' h'"
  unfolding log_return_def by (elim some_elims; auto dest: dlog_log_step)

lemma mqtt_init_finish_step:
  "mqtt_init_finish env ctx h calls = Some (r, ctx', h', c) \<Longrightarrow> log_step ctx h ctx' h'"
  unfolding mqtt_init_finish_def
  by (elim some_elims; (drule log_return_step)?; auto intro: log_step_same)

lemma log_step_from_client: "log_step (ctx\<lparr>mqtt_client := c\<rparr>) h ctx' h' \<Longrightarrow> log_step ctx h ctx' h'"
  by (rule log_step_trans[OF log_step_same]) simp_all

lemma mqtt_init_step:
  "mqtt_init_handler env ctx h = Some (r, ctx', h', c) \<Longrightarrow> log_step ctx h ctx' h'"
  unfolding mqtt_init_handler_def Let_def
  by (elim some_elims; hypsubst?; (drule log_return_step mqtt_init_finish_step)?; (drule dlog_log_step)?;
      (drule dlog_log_step)?; (drule log_step_from_client)?; (drule log_step_from_client)?; meson log_step_trans)

lemma ntp_sync_step:
  assumes "ntp_sync_handler env lenv ctx h = Some (r, ctx', h', c)" shows "log_step ctx h ctx' h'"
proof -
  define ctx1 where "ctx1 = (if ntp_state ctx = None then ctx\<lparr>ntp_state := ntp_init env\<rparr> else ctx)"
  have l1: "log_step ctx h ctx1 h" by (rule log_step_same) (simp add: ctx1_def)
  have "log_step ctx1 h ctx' h'"
    using assms unfolding ntp_sync_handler_def ctx1_def[symmetric] Let_def
    by (cases "ntp_state ctx1") (auto elim!: some_elims dest!: dlog_log_step intro: log_step_same split: prod.split_asm)
  with l1 show ?thesis by (rule log_step_trans)
qed

lemma host_leases:
  assumes "wifi_config_handler env hs = Some (e, hs', calls)"
  shows "ap_leases hs' = ap_leases hs \<or> (\<exists>d. ap_leases hs' = Some d \<and> dhcp_wf d)"
  using assms unfolding wifi_config_handler_def host_provisioning_ap_def Let_def
  by (auto simp: dhcp_server_init_def Let_def dhcp_wf_def AP_GATEWAY_def AP_NETMASK_def zero_lease_def zero_mac_def
      dhcp_consts split: if_split_asm prod.split_asm)

lemma handler_ok_flash:
  "grows (dev_ctx d) c \<Longrightarrow> logdump c = logdump (dev_ctx d) \<Longrightarrow> handler_ok d (d\<lparr>dev_ctx := c, dev_flash := fl\<rparr>)"
  by (simp add: handler_ok_def log_step_same)

lemma handler_ok_ctx:
  "grows (dev_ctx d) c \<Longrightarrow> logdump c = logdump (dev_ctx d) \<Longrightarrow> handler_ok d (d\<lparr>dev_ctx := c\<rparr>)"
  by (simp add: handler_ok_def log_step_same)

lemma handler_ok_logs:
  "grows (dev_ctx d) c \<Longrightarrow> log_step (dev_ctx d) (dev_heap d) c h \<Longrightarrow> handler_ok d (d\<lparr>dev_ctx := c, dev_heap := h\<rparr>)"
  by (simp add: handler_ok_def)

lemma handler_ok_heap: "next_ptr h = next_ptr (dev_heap d) \<Longrightarrow> handler_ok d (d\<lparr>dev_heap := h\<rparr>)"
  by (simp add: handler_ok_def log_step_def slots_kept_def slots_old_def)

lemma handler_ok_host:
  "ap_leases hs = ap_leases (dev_host d) \<or> (\<exists>s. ap_leases hs = Some s \<and> dhcp_wf s) \<Longrightarrow> handler_ok d (d\<lparr>dev_host := hs\<rparr>)"
  by (auto simp: handler_ok_def log_step_refl)

lemma handler_ok_refl: "handler_ok d d"
  by (simp add: handler_ok_def log_step_refl)

lemma sensor_handlers_logs:
  "sense_init_handler env ctx = (r, ctx') \<Longrightarrow> logdump ctx' = logdump ctx"
  "sense_listen_handler e1 e2 ctx = Some (v, ctx') \<Longrightarrow> logdump ctx' = logdump ctx"
  by (auto simp: sense_init_handler_def sense_listen_handler_def bind_eq_Some_conv split: prod.split_asm if_split_asm)

lemma logdump_handler_next_ptr: "logdump_handler env ctx h = Some (e, h', calls) \<Longrightarrow> next_ptr h' = next_ptr h"
  unfolding logdump_handler_def by (elim some_elims; auto dest: logdump_fn_next_ptr)

lemma run_handler_ok:
  assumes "run_handler env d = Some (err, d', calls)" shows "handler_ok d d'"
proof (cases "loop_state (dev_ctx d)")
  case FLASH_INIT
  with assms show ?thesis
    by (auto simp: run_handler_def bind_eq_Some_conv Let_def
        intro!: handler_ok_flash intro: flash_init_grows flash_handlers_logs)
next
  case WIFI_CONFIG
  with assms show ?thesis
    by (auto simp: run_handler_def bind_eq_Some_conv Let_def intro!: handler_ok_host dest: host_leases)
next
  case FLASH_WRITE
  with assms show ?thesis
    by (auto simp: run_handler_def bind_eq_Some_conv Let_def
        intro!: handler_ok_flash intro: flash_write_grows flash_handlers_logs)
next
  case MQTT_INIT
  with assms show ?thesis
    by (auto simp: run_handler_def bind_eq_Some_conv Let_def
        intro!: handler_ok_logs intro: mqtt_init_grows mqtt_init_step)
next
  case SENSE_INIT
  with assms show ?thesis
    by (auto simp: run_handler_def Let_def split: prod.split_asm
        intro!: handler_ok_ctx intro: sense_init_grows sensor_handlers_logs)
next
  case NTP_SYNC
  with assms show ?thesis
    by (auto simp: run_handler_def bind_eq_Some_conv Let_def
        intro!: handler_ok_logs intro: ntp_sync_grows ntp_sync_step)
next
  case SENSE_LISTEN
  with assms show ?thesis
    by (auto simp: run_handler_def bind_eq_Some_conv Let_def
        intro!: handler_ok_ctx intro: sense_listen_grows sensor_handlers_logs)
next
  case LOGDUMP
  with assms show ?thesis
    by (auto simp: run_handler_def bind_eq_Some_conv Let_def intro!: handler_ok_heap dest: logdump_handler_next_ptr)
qed (use assms in \<open>auto simp: run_handler_def bind_eq_Some_conv Let_def handler_ok_refl mqtt_listen_handler_def
       throttle_listen_handler_def\<close>)

lemma log_handler_err_ok: "log_handler_err lenv err d = Some d' \<Longrightarrow> handler_ok d d'"
  by (auto simp: log_handler_err_def bind_eq_Some_conv handler_ok_refl split: if_split_asm
      intro!: handler_ok_logs intro: dlog_grows dlog_log_step)

lemma free_logs_log_step: "free_logs c h = Some h' \<Longrightarrow> logdump c' = logdump c \<Longrightarrow> log_step c h c' h'"
  by (auto simp: log_step_def slots_kept_def slots_old_def dest: free_logs_next_ptr)

lemma switch_state_frame:
  assumes "switch_state env c h = Some (c', h')" "loop_state c \<noteq> LOOP_STATE_COUNT"
  shows "c' = c\<lparr>loop_state := successor c\<rparr>" and "log_step c h c' h'"
proof -
  have r: "loop_state c = LOGDUMP \<longrightarrow> free_logs c h \<noteq> None"
    using assms(1) by (auto simp: switch_state_def bind_eq_Some_conv)
  from switch_state_Some[OF assms(2) r, of env] assms(1) show "c' = c\<lparr>loop_state := successor c\<rparr>" by simp
  moreover have "h' = (if loop_state c = LOGDUMP then the (free_logs c h) else h)"
    using switch_state_Some[OF assms(2) r, of env] assms(1) by simp
  ultimately show "log_step c h c' h'"
    using r by (cases "loop_state c = LOGDUMP") (auto intro: free_logs_log_step log_step_same)
qed

section \<open>Reachable devices\<close>

lemma dev_inv_handler: "dev_inv d \<Longrightarrow> handler_ok d d' \<Longrightarrow> dev_inv d'"
  by (auto simp: dev_inv_def handler_ok_def grows_def log_step_def intro: stage_inv_flags)

lemma apply_frame:
  "logdump (apply_dump (apply_publish (apply_reset c))) = logdump c"
  "ntp_state (apply_dump (apply_publish (apply_reset c))) = ntp_state c"
  "ctx_wf (apply_dump (apply_publish (apply_reset c))) = ctx_wf c"
  "\<not> reset (apply_dump (apply_publish (apply_reset c)))"
  by (simp_all add: apply_defs ctx_wf_def)

lemma update_state_step:
  assumes "update_state env c h = Some (c', h')" "loop_state c \<noteq> LOOP_STATE_COUNT"
  shows "c' = apply_dump (apply_publish (apply_reset (c\<lparr>loop_state := successor c\<rparr>)))"
    and "log_step c h c' h'"
proof -
  from assms(1) obtain c1 where s: "switch_state env c h = Some (c1, h')"
    and c': "c' = apply_dump (apply_publish (apply_reset c1))"
    by (auto simp: update_state_def bind_eq_Some_conv)
  note f = switch_state_frame[OF s assms(2)]
  show "c' = apply_dump (apply_publish (apply_reset (c\<lparr>loop_state := successor c\<rparr>)))" by (simp add: c' f(1))
  show "log_step c h c' h'" by (rule log_step_trans[OF f(2)]) (rule log_step_same, simp add: c' apply_frame)
qed

lemma dev_inv_update:
  assumes "dev_inv d" "update_state env (dev_ctx d) (dev_heap d) = Some (c', h')"
  shows "dev_inv (d\<lparr>dev_ctx := c', dev_heap := h'\<rparr>)"
proof -
  have n: "loop_state (dev_ctx d) \<noteq> LOOP_STATE_COUNT" using assms(1) by (simp add: dev_inv_def stage_inv_def)
  note u = update_state_step[OF assms(2) n]
  have "stage_inv c'" using assms stage_inv_update by (auto simp: dev_inv_def)
  moreover have "slots_old c' h'" using assms(1) u(2) by (simp add: dev_inv_def log_step_def)
  ultimately show ?thesis
    using assms(1) u(1) by (simp add: dev_inv_def apply_frame ntp_fine_def) (simp add: ctx_wf_def)
qed

lemma loop_turn_parts:
  assumes "loop_turn env d = Some (d', calls)"
  obtains err d1 c1 d2 where "run_handler env d = Some (err, d1, c1)"
    "log_handler_err (le_err_log env) err d1 = Some d2"
    "update_state (le_update_log env) (dev_ctx d2) (dev_heap d2) = Some (dev_ctx d', dev_heap d')"
    "d' = d2\<lparr>dev_ctx := dev_ctx d', dev_heap := dev_heap d'\<rparr>"
  using assms unfolding loop_turn_def
  by (auto simp: bind_eq_Some_conv Let_def basicio_init_handler_def)

lemma dev_inv_turn: "dev_inv d \<Longrightarrow> loop_turn env d = Some (d', calls) \<Longrightarrow> dev_inv d'"
  by (erule loop_turn_parts) (metis dev_inv_handler dev_inv_update run_handler_ok log_handler_err_ok)

lemma sample_rate_grows: "sample_rate_update ctx = (a, ctx') \<Longrightarrow> grows ctx ctx' \<and> logdump ctx' = logdump ctx"
  by (auto simp: sample_rate_update_def grows_defs split: if_split_asm)

lemma recv_logs: "tcp_server_recv env ops ctx con pcb p = Some (e, ctx', con', calls) \<Longrightarrow> logdump ctx' = logdump ctx"
  using recv_ctx[of env ops ctx con pcb p e ctx' con' calls] parse_frame by fastforce

text \<open>Steps other than a turn keep the flags and the logs as a handler does.\<close>

lemma callback_ok:
  assumes "dev_step d ev d'" "\<forall>env. ev \<noteq> Turn env" shows "handler_ok d d'"
  using assms
proof cases
  case (step_timer again ctx')
  with sample_rate_grows[OF step_timer(3)] show ?thesis by (auto intro: handler_ok_ctx)
next
  case (step_http env ops con pcb p e ctx' con' calls)
  then show ?thesis by (auto intro: handler_ok_ctx recv_grows recv_logs)
next
  case (step_dhcp srv ops env p srv' sent)
  then show ?thesis by (auto simp: handler_ok_def log_step_refl dest: process_any)
next
  case (step_ntp st ev st' calls)
  then show ?thesis by (auto simp: handler_ok_def log_step_same grows_defs dest: ntp_step_inv)
next
  case (step_published st)
  then show ?thesis by (auto simp: handler_ok_def log_step_same grows_defs)
qed simp

lemma dev_inv_step:
  assumes "dev_inv d" "dev_step d ev d'" shows "dev_inv d'"
proof (cases "\<exists>env. ev = Turn env")
  case True
  with assms(2) show ?thesis by (auto elim!: dev_step_TurnE intro: dev_inv_turn[OF assms(1)])
next
  case False
  with callback_ok[OF assms(2)] show ?thesis by (intro dev_inv_handler[OF assms(1)]) auto
qed

lemma dev_inv_start: "dev_started d \<Longrightarrow> dev_inv d"
proof -
  assume "dev_started d"
  then obtain env fl where s: "main_start env fl = Some (Inr d)" by (auto simp: dev_started_def)
  let ?h0 = "\<lparr>blocks = Map.empty, next_ptr = 0\<rparr> :: heap"
  from s obtain hub e1 ctx1 h1 e2 ctx2 where hub: "c_strcpy (hub_loc zero_ctx) 0 (st_hub_loc env) = Some hub"
    and l1: "dlog (st_log env 0) (zero_ctx\<lparr>hub_loc := hub\<rparr>) ?h0 LOG_INFO (''HUB_LOC set to '' @ st_hub_loc env @ [NL]) = Some (e1, ctx1, h1)"
    and l2: "dlog (st_log env 1) ctx1 h1 LOG_INFO (''CYW43 Initialized'' @ [NL]) = Some (e2, ctx2, dev_heap d)"
    and d: "dev_ctx d = ctx2" "ap_leases (dev_host d) = None"
    unfolding main_start_def Let_def
    by (auto simp: bind_eq_Some_conv basicio_init_handler_def split: if_split_asm)
  let ?c0 = "zero_ctx\<lparr>hub_loc := hub\<rparr>"
  have "length hub = 64 \<and> NUL \<in> set hub"
    using hub by (auto simp: c_strcpy_def blit_def zero_ctx_def split: if_split_asm)
  then have c0: "ctx_wf ?c0" using ctx_wf_zero by (simp add: ctx_wf_def)
  have g: "grows ?c0 ctx2" using grows_trans[OF dlog_grows[OF l1] dlog_grows[OF l2]] .
  have "slots_old ?c0 ?h0" by (simp add: slots_old_def zero_ctx_def)
  moreover have "log_step ?c0 ?h0 ctx2 (dev_heap d)" using log_step_trans[OF dlog_log_step[OF l1] dlog_log_step[OF l2]] .
  ultimately have "slots_old ctx2 (dev_heap d)" by (simp add: log_step_def)
  moreover have "stage_inv ctx2" by (rule stage_inv_flags[of zero_ctx, OF stage_inv_zero])
     (use g in \<open>simp add: grows_def flags_grow_def\<close>)
  moreover have "\<not> reset ctx2" "ntp_fine ctx2" using g by (auto simp: grows_def zero_ctx_def ntp_fine_def)
  ultimately show ?thesis using g c0 d by (simp add: dev_inv_def grows_def)
qed

interpretation device: event_system dev_started dev_step dev_inv
  by unfold_locales (rule dev_inv_start dev_inv_step; assumption)+

section \<open>What never goes back\<close>

text \<open>The provisioning flags and the filled log slots of a device only accumulate.\<close>

definition dev_mono :: "device \<Rightarrow> device \<Rightarrow> bool" where
  "dev_mono d d' \<longleftrightarrow> slots_kept (dev_ctx d) (dev_ctx d') \<and>
     (wifi_configd (dev_ctx d) \<longrightarrow> wifi_configd (dev_ctx d')) \<and> (mqtt_initd (dev_ctx d) \<longrightarrow> mqtt_initd (dev_ctx d')) \<and>
     (sense_initd (dev_ctx d) \<longrightarrow> sense_initd (dev_ctx d')) \<and> (ntp_syncd (dev_ctx d) \<longrightarrow> ntp_syncd (dev_ctx d'))"

lemma dev_mono_refl: "dev_mono d d"
  by (simp add: dev_mono_def slots_kept_def)

lemma dev_mono_trans: "dev_mono a b \<Longrightarrow> dev_mono b c \<Longrightarrow> dev_mono a c"
  unfolding dev_mono_def slots_kept_def by blast

lemma handler_ok_mono: "handler_ok d d' \<Longrightarrow> dev_mono d d'"
  by (auto simp: handler_ok_def dev_mono_def log_step_def grows_def flags_grow_def)

lemma update_flags:
  "\<not> reset c \<Longrightarrow> wifi_configd (apply_dump (apply_publish (apply_reset (c\<lparr>loop_state := s\<rparr>)))) = wifi_configd c \<and>
   mqtt_initd (apply_dump (apply_publish (apply_reset (c\<lparr>loop_state := s\<rparr>)))) = mqtt_initd c \<and>
   sense_initd (apply_dump (apply_publish (apply_reset (c\<lparr>loop_state := s\<rparr>)))) = sense_initd c \<and>
   ntp_syncd (apply_dump (apply_publish (apply_reset (c\<lparr>loop_state := s\<rparr>)))) = ntp_syncd c"
  by (simp add: apply_defs)

lemma turn_mono:
  assumes "dev_inv d" "loop_turn env d = Some (d', calls)" shows "dev_mono d d'"
  using assms(2)
proof (rule loop_turn_parts)
  fix err d1 c1 d2
  assume r: "run_handler env d = Some (err, d1, c1)" and l: "log_handler_err (le_err_log env) err d1 = Some d2"
    and u: "update_state (le_update_log env) (dev_ctx d2) (dev_heap d2) = Some (dev_ctx d', dev_heap d')"
  have ok: "handler_ok d d2" using handler_ok_trans[OF run_handler_ok[OF r] log_handler_err_ok[OF l]] .
  then have i: "dev_inv d2" by (rule dev_inv_handler[OF assms(1)])
  then have n: "loop_state (dev_ctx d2) \<noteq> LOOP_STATE_COUNT" "\<not> reset (dev_ctx d2)" by (simp_all add: dev_inv_def stage_inv_def)
  have "dev_mono d2 d'"
    using update_state_step[OF u n(1)] update_flags[OF n(2)] by (simp add: dev_mono_def log_step_def)
  then show ?thesis by (rule dev_mono_trans[OF handler_ok_mono[OF ok]])
qed

lemma step_mono:
  assumes "dev_inv d" "dev_step d ev d'" shows "dev_mono d d'"
proof (cases "\<exists>env. ev = Turn env")
  case True
  with assms(2) show ?thesis by (auto elim!: dev_step_TurnE intro: turn_mono[OF assms(1)])
next
  case False
  with callback_ok[OF assms(2)] show ?thesis by (intro handler_ok_mono) auto
qed

interpretation device_mono: monotone_system dev_started dev_step dev_inv dev_mono
  by (unfold_locales; (rule dev_mono_refl | erule (1) dev_mono_trans | erule (1) step_mono))

section \<open>The turn at the log dump\<close>

lemma publish_calls: "publish env st topic m = Some (e, calls) \<Longrightarrow> calls \<noteq> []"
  unfolding publish_def Let_def by (elim some_elims; auto split: if_split_asm)

lemma logdump_fn_freed:
  assumes "logdump_fn env ctx h = Some (e, h', calls)" "payload_malloc env"
  shows "\<exists>h1. free_logs ctx h1 = Some h'"
proof (rule logdump_frees[OF assms(1)])
  show "calls \<noteq> []"
    using assms unfolding logdump_fn_def Let_def
    by (auto simp: bind_eq_Some_conv split: prod.split_asm dt_err.split_asm option.split_asm if_split_asm)
       (auto split: sum.split_asm if_split_asm prod.split_asm simp: bind_eq_Some_conv dest: publish_calls)
qed

lemma dlog_keeps_missing:
  assumes "dlog env c h lvl m = Some (e, c', h')" "slots_old c h" "Some p \<in> set (logdump c)" "blocks h p = None"
  shows "Some p \<in> set (logdump c') \<and> blocks h' p = None"
proof -
  note f = dlog_frame[OF assms(1)]
  have "p < next_ptr h" using assms(2,3) by (simp add: slots_old_def)
  with f assms(4) have "blocks h' p = None" by auto
  moreover from assms(3) obtain i where "i < length (logdump c)" "logdump c ! i = Some p" by (auto simp: in_set_conv_nth)
  with f have "Some p \<in> set (logdump c')" by (fastforce simp: in_set_conv_nth)
  ultimately show ?thesis by blast
qed

lemma turn_at_logdump:
  assumes inv: "dev_inv d" and st: "loop_state (dev_ctx d) = LOGDUMP" and p: "logdump (dev_ctx d) ! 0 = Some p"
    and m: "payload_malloc (le_mqtt env)"
  shows "loop_turn env d = None"
proof (rule ccontr)
  assume "loop_turn env d \<noteq> None"
  then obtain d' calls where t: "loop_turn env d = Some (d', calls)" by auto
  then show False
  proof (rule loop_turn_parts)
    fix err d1 c1 d2
    assume r: "run_handler env d = Some (err, d1, c1)" and l: "log_handler_err (le_err_log env) err d1 = Some d2"
      and u: "update_state (le_update_log env) (dev_ctx d2) (dev_heap d2) = Some (dev_ctx d', dev_heap d')"
    have len: "length (logdump (dev_ctx d)) = 16" using inv by (simp add: dev_inv_def ctx_wf_def)
    from r st p len obtain e h1 cs where h1: "logdump_fn (le_mqtt env) (dev_ctx d) (dev_heap d) = Some (e, h1, cs)"
      and d1: "d1 = d\<lparr>dev_heap := h1\<rparr>"
      by (auto simp: run_handler_def bind_eq_Some_conv logdump_handler_def rd_def)
    have mem: "Some p \<in> set (logdump (dev_ctx d))" using p len by (metis nth_mem zero_less_numeral)
    have gone: "blocks h1 p = None"
      using logdump_fn_freed[OF h1 m] free_slots_gone mem unfolding free_logs_def by blast
    have i1: "dev_inv d1" by (rule dev_inv_handler[OF inv run_handler_ok[OF r]])
    have "Some p \<in> set (logdump (dev_ctx d2)) \<and> blocks (dev_heap d2) p = None \<and> loop_state (dev_ctx d2) = LOGDUMP"
    proof (cases "err = 0")
      case True
      with l d1 have "d2 = d\<lparr>dev_heap := h1\<rparr>" by (simp add: log_handler_err_def)
      with mem gone st show ?thesis by simp
    next
      case False
      with l obtain e2 c2 h2 where g: "dlog (le_err_log env) (dev_ctx d1) (dev_heap d1) LOG_ERR (dec_int err @ [NL]) = Some (e2, c2, h2)"
        and d2: "d2 = d1\<lparr>dev_ctx := c2, dev_heap := h2\<rparr>" by (auto simp: log_handler_err_def bind_eq_Some_conv)
      have "Some p \<in> set (logdump c2) \<and> blocks h2 p = None"
        using dlog_keeps_missing[OF g] i1 mem gone d1 by (simp add: dev_inv_def)
      moreover have "loop_state c2 = LOGDUMP" using dlog_grows[OF g] st d1 by (simp add: grows_def flags_grow_def)
      ultimately show ?thesis by (simp add: d2)
    qed
    then have "free_logs (dev_ctx d2) (dev_heap d2) = None" "loop_state (dev_ctx d2) = LOGDUMP"
      using free_slots_missing by (auto simp: free_logs_def)
    with u show False by (simp add: update_state_def switch_state_def)
  qed
qed

text \<open>The log line the start writes stays in slot 0 for good.\<close>

lemma start_fills_slot:
  assumes "main_start env fl = Some (Inr d)" "log_calloc (st_log env 0)"
  shows "\<exists>p. logdump (dev_ctx d) ! 0 = Some p"
proof -
  let ?h0 = "\<lparr>blocks = Map.empty, next_ptr = 0\<rparr> :: heap"
  from assms(1) obtain hub e1 ctx1 h1 e2 ctx2 where
    l1: "dlog (st_log env 0) (zero_ctx\<lparr>hub_loc := hub\<rparr>) ?h0 LOG_INFO (''HUB_LOC set to '' @ st_hub_loc env @ [NL]) = Some (e1, ctx1, h1)"
    and l2: "dlog (st_log env 1) ctx1 h1 LOG_INFO (''CYW43 Initialized'' @ [NL]) = Some (e2, ctx2, dev_heap d)"
    and d: "dev_ctx d = ctx2"
    unfolding main_start_def Let_def
    by (auto simp: bind_eq_Some_conv basicio_init_handler_def split: if_split_asm)
  have "logdump (zero_ctx\<lparr>hub_loc := hub\<rparr>) = map Some [] @ None # replicate 15 None"
    by (simp add: zero_ctx_def numeral_eq_Suc)
  then have "logdump ctx1 ! 0 = Some 0 \<and> 0 < length (logdump ctx1)"
    using l1 assms(2) find_slot_free[of 16 0 "[]"]
    by (auto simp: dlog_def bind_eq_Some_conv heap_alloc_def)
  with dlog_log_step[OF l2] show ?thesis by (auto simp: d log_step_def slots_kept_def)
qed

section \<open>Booting and provisioning\<close>

lemma initialize_blank:
  assumes "flash_dev_ok dev"
  shows "initialize_flash dev False (replicate NVS_SIZE (CHR 0xFF)) = Some (DT_ERR_OK, replicate NVS_SIZE NUL)"
proof -
  have e: "dev_erase dev (replicate NVS_SIZE (CHR 0xFF)) NVS_SIZE = replicate NVS_SIZE (CHR 0xFF)"
    using assms by (simp add: flash_dev_ok_def)
  have p: "dev_program dev (replicate NVS_SIZE (CHR 0xFF)) (replicate NVS_SIZE NUL) = replicate NVS_SIZE NUL"
    using assms by (simp add: flash_dev_ok_def)
  show ?thesis
    using assms e p
    by (simp add: initialize_flash_def list_ex_iff flash_safe_execute_def do_flash_erase_program_def rd_bytes_def flash_dev_ok_def)
qed

lemma flash_init_blank:
  assumes "\<And>i. flash_dev_ok (dev i)"
  shows "flash_init_handler dev ctx (replicate NVS_SIZE (CHR 0xFF)) =
    Some (DT_ERR_OK, ctx\<lparr>flash_initd := True\<rparr>, replicate NVS_SIZE NUL)"
proof -
  have "read_val (dev 1) ''ssid'' (wifi_ssid ctx) (replicate NVS_SIZE NUL) = Some (DT_ERR_KEYNOTFOUND, wifi_ssid ctx)"
    by (rule flash.fetch_missing[OF store_rep_empty assms]) (simp_all add: valid_cred_key in_cred_keys key_visible_def)
  then show ?thesis by (cases ctx) (simp add: flash_init_handler_def initialize_blank[OF assms])
qed

lemma apply_idle: "\<not> reset c \<Longrightarrow> \<not> online c \<Longrightarrow> apply_dump (apply_publish (apply_reset c)) = c"
  by (simp add: apply_reset_def apply_publish_def apply_dump_def)

text \<open>A turn whose handler succeeds, outside the log dump, moves to the successor state.\<close>

lemma loop_turn_next:
  assumes "run_handler env d = Some (0, d1, calls)" "loop_state (dev_ctx d1) \<notin> {LOGDUMP, LOOP_STATE_COUNT}"
    and "\<not> reset (dev_ctx d1)" "\<not> online (dev_ctx d1)"
  shows "\<exists>calls'. loop_turn env d = Some (d1\<lparr>dev_ctx := (dev_ctx d1)\<lparr>loop_state := successor (dev_ctx d1)\<rparr>\<rparr>, calls')"
proof -
  have "update_state (le_update_log env) (dev_ctx d1) (dev_heap d1) =
      Some ((dev_ctx d1)\<lparr>loop_state := successor (dev_ctx d1)\<rparr>, dev_heap d1)"
    using update_state_Some[of "dev_ctx d1" "dev_heap d1"] assms(2-4)
      apply_idle[of "(dev_ctx d1)\<lparr>loop_state := successor (dev_ctx d1)\<rparr>"]
    by (simp add: online_def)
  then show ?thesis
    using assms(1) by (cases d1) (simp add: loop_turn_def log_handler_err_def basicio_init_handler_def)
qed

text \<open>The context after the start: zero, but for the hub address and the log.\<close>

definition fresh_ctx :: "app_ctx \<Rightarrow> bool" where
  "fresh_ctx c \<longleftrightarrow> loop_state c = FLASH_INIT \<and> \<not> reset c \<and> \<not> set_publish c \<and> \<not> flash_initd c \<and> \<not> wifi_configd c \<and>
     \<not> mqtt_initd c \<and> \<not> sense_initd c \<and> \<not> ntp_syncd c \<and> \<not> flash_written c \<and> ctx_wf c"

lemma start_fresh:
  assumes "main_start env fl = Some (Inr d)"
  shows "fresh_ctx (dev_ctx d)" and "dev_flash d = fl" and "\<not> hosting (dev_host d)"
proof -
  from assms show "dev_flash d = fl" "\<not> hosting (dev_host d)"
    unfolding main_start_def Let_def by (auto simp: bind_eq_Some_conv basicio_init_handler_def split: if_split_asm)
  from assms obtain hub h0 h1 e1 ctx1 e2 m1 m2 where
    l1: "dlog (st_log env 0) (zero_ctx\<lparr>hub_loc := hub\<rparr>) h0 LOG_INFO m1 = Some (e1, ctx1, h1)"
    and l2: "dlog (st_log env 1) ctx1 h1 LOG_INFO m2 = Some (e2, dev_ctx d, dev_heap d)"
    unfolding main_start_def Let_def by (auto simp: bind_eq_Some_conv basicio_init_handler_def split: if_split_asm)
  obtain s1 b1 where c1: "ctx1 = zero_ctx\<lparr>hub_loc := hub, logdump := s1, dump_logs := b1\<rparr>"
    using dlog_frame[OF l1] by blast
  obtain s b where "dev_ctx d = ctx1\<lparr>logdump := s, dump_logs := b\<rparr>" using dlog_frame[OF l2] by blast
  then have "dev_ctx d = zero_ctx\<lparr>hub_loc := hub, logdump := s, dump_logs := b\<rparr>" by (simp add: c1)
  moreover have "dev_inv d" using dev_inv_start assms by (auto simp: dev_started_def)
  ultimately show "fresh_ctx (dev_ctx d)" by (simp add: fresh_ctx_def dev_inv_def zero_ctx_def)
qed

lemma boot_with_creds:
  assumes d: "fresh_ctx (dev_ctx d)" and rep: "store_rep (dev_flash d) m" and dev: "\<And>i. flash_dev_ok (le_flash env i)"
    and look: "map_of m ''ssid'' = Some s" "map_of m ''password'' = Some p" "map_of m ''contract'' = Some t"
    and v: "cred_value s" "cred_value p" "cred_value t"
  shows "\<exists>d' calls. loop_turn env d = Some (d', calls) \<and> loop_state (dev_ctx d') = MQTT_INIT \<and>
    has_creds (dev_ctx d') s p t \<and> wifi_configd (dev_ctx d') \<and> dev_flash d' = dev_flash d"
proof -
  have wf: "ctx_wf (dev_ctx d)" using d by (simp add: fresh_ctx_def)
  from flash_init_handler_loads[where dev = "le_flash env", OF rep dev look v wf] obtain c where
    c: "flash_init_handler (le_flash env) (dev_ctx d) (dev_flash d) = Some (DT_ERR_OK, c, dev_flash d)"
    "has_creds c s p t" "wifi_configd c" "flash_initd c" "loop_state c = loop_state (dev_ctx d)" by blast
  let ?d1 = "d\<lparr>dev_ctx := c, dev_flash := dev_flash d\<rparr>"
  have "run_handler env d = Some (0, ?d1, [])" using c(1) d by (simp add: run_handler_def fresh_ctx_def)
  moreover have "\<not> reset c" using flash_init_grows[OF c(1)] d by (simp add: grows_def fresh_ctx_def)
  moreover have "\<not> online c"
  proof -
    have "mqtt_initd c = mqtt_initd (dev_ctx d)"
      using c(1) unfolding flash_init_handler_def Let_def by (elim some_elims; auto)
    then show ?thesis using d by (simp add: online_def fresh_ctx_def)
  qed
  ultimately obtain calls where
    "loop_turn env d = Some (?d1\<lparr>dev_ctx := c\<lparr>loop_state := successor c\<rparr>\<rparr>, calls)"
    using loop_turn_next[of env d ?d1] c(5) d by (auto simp: fresh_ctx_def)
  moreover have "successor c = MQTT_INIT" using c(3-5) d by (simp add: successor_def fresh_ctx_def)
  ultimately show ?thesis using c(2,3) by (auto simp: has_creds_def)
qed

lemma boot_blank:
  assumes d: "fresh_ctx (dev_ctx d)" "dev_flash d = replicate NVS_SIZE (CHR 0xFF)" and dev: "\<And>i. flash_dev_ok (le_flash env i)"
  shows "\<exists>d' calls. loop_turn env d = Some (d', calls) \<and> loop_state (dev_ctx d') = WIFI_CONFIG \<and>
    \<not> wifi_configd (dev_ctx d') \<and> store_rep (dev_flash d') []"
proof -
  let ?c = "(dev_ctx d)\<lparr>flash_initd := True\<rparr>"
  let ?d1 = "d\<lparr>dev_ctx := ?c, dev_flash := replicate NVS_SIZE NUL\<rparr>"
  have "run_handler env d = Some (0, ?d1, [])"
    using d flash_init_blank[OF dev] by (simp add: run_handler_def fresh_ctx_def)
  from loop_turn_next[OF this] d show ?thesis
    by (auto simp: fresh_ctx_def online_def successor_def store_rep_empty)
qed

text \<open>Saving what a request delivered: the two turns after it.\<close>

lemma save_turns:
  assumes d: "loop_state (dev_ctx d) = WIFI_CONFIG" "hosting (dev_host d)" "wifi_configd (dev_ctx d)"
    "\<not> reset (dev_ctx d)" "\<not> online (dev_ctx d)"
    and rep: "store_rep (dev_flash d) m" "cred_store m" and dev: "\<And>i. flash_dev_ok (le_flash env2 i)"
    and ctx: "has_creds (dev_ctx d) s p t" and v: "cred_value s" "cred_value p" "cred_value t"
  shows "\<exists>d1 c1 d2 c2. loop_turn env1 d = Some (d1, c1) \<and> loop_turn env2 d1 = Some (d2, c2) \<and>
    loop_state (dev_ctx d2) = MQTT_INIT \<and> store_rep (dev_flash d2) (save_creds s p t m)"
proof -
  have "run_handler env1 d = Some (0, d, [])"
    using d(1) hosting_stays[OF d(2)] by (cases d) (simp add: run_handler_def)
  from loop_turn_next[OF this] d obtain c1 where
    1: "loop_turn env1 d = Some (d\<lparr>dev_ctx := (dev_ctx d)\<lparr>loop_state := FLASH_WRITE\<rparr>\<rparr>, c1)"
    by (auto simp: successor_def)
  let ?d1 = "d\<lparr>dev_ctx := (dev_ctx d)\<lparr>loop_state := FLASH_WRITE\<rparr>\<rparr>"
  have "has_creds (dev_ctx ?d1) s p t" using ctx by (simp add: has_creds_def)
  from flash_write_handler_saves[where dev = "le_flash env2", OF _ dev rep(2) this v, of "dev_flash ?d1"] rep(1) obtain fl where
    fl: "flash_write_handler (le_flash env2) (dev_ctx ?d1) (dev_flash ?d1) =
      Some (DT_ERR_OK, (dev_ctx ?d1)\<lparr>flash_written := True\<rparr>, fl)" "store_rep fl (save_creds s p t m)" by auto
  let ?d2 = "?d1\<lparr>dev_ctx := (dev_ctx ?d1)\<lparr>flash_written := True\<rparr>, dev_flash := fl\<rparr>"
  have "run_handler env2 ?d1 = Some (0, ?d2, [])" using fl(1) by (simp add: run_handler_def)
  from loop_turn_next[OF this] d obtain c2 where
    "loop_turn env2 ?d1 = Some (?d2\<lparr>dev_ctx := (dev_ctx ?d2)\<lparr>loop_state := MQTT_INIT\<rparr>\<rparr>, c2)"
    by (auto simp: successor_def online_def)
  with 1 fl(2) show ?thesis by auto
qed

end
