(* ===== verification/First_Cycle.thy ===== *)
theory First_Cycle
  imports Main_Loop
begin

text \<open>
  The way of a configured device from power-on to its first sample, when every allocation
  and every call of the SDK succeeds: events of the transition system of \<open>Main_Loop\<close>, one lemma
  for each kind of turn. The lemmas carry a small invariant along (\<open>at_stage\<close>): how many log slots
  are in use, that nothing is requested, and that the texts of the context are terminated. A
  second run, in which the sensor and then a publish fail, fills the log and comes to the log dump.
\<close>

section \<open>Logging while there is room\<close>

text \<open>The first \<open>n\<close> slots hold lines, the others are empty, and no dump is asked for.\<close>

definition logs_used :: "nat \<Rightarrow> app_ctx \<Rightarrow> heap \<Rightarrow> bool" where
  "logs_used n c h \<longleftrightarrow> log_inv c h \<and> \<not> dump_logs c \<and>
     (\<exists>ps. length ps = n \<and> logdump c = map Some ps @ replicate (16 - n) None)"

definition log_env_ok :: "log_env \<Rightarrow> bool" where
  "log_env_ok env \<longleftrightarrow> log_calloc env \<and> unat (log_now_ms env) < 10 ^ 13"

lemma dlog_used:
  assumes "logs_used n c h" "n \<le> 8" "log_env_ok env" "is_cstring m"
  shows "\<exists>slots h'. dlog env c h lvl m = Some (DT_ERR_OK, c\<lparr>logdump := slots\<rparr>, h') \<and> logs_used (Suc n) (c\<lparr>logdump := slots\<rparr>) h'"
proof -
  obtain ps where ps: "length ps = n" "logdump c = map Some ps @ replicate (16 - n) None"
    using assms(1) by (auto simp: logs_used_def)
  have "16 - n = Suc (16 - Suc n)" using assms(2) by simp
  then have sl: "logdump c = map Some ps @ None # replicate (16 - Suc n) None" using ps(2) by simp
  have i: "log_inv c h" "dump_logs c = False" using assms(1) by (auto simp: logs_used_def)
  from dlog_stores[OF i(1) _ _ assms(4) sl, of env lvl] assms(3) obtain b where
    d: "dlog env c h lvl m = Some (DT_ERR_OK, c\<lparr>logdump := map Some ps @ Some (next_ptr h) # replicate (16 - Suc n) None,
        dump_logs := dump_logs c \<or> 8 < length ps\<rparr>, snd (heap_alloc b h))"
    and inv: "log_inv (c\<lparr>logdump := map Some ps @ Some (next_ptr h) # replicate (16 - Suc n) None,
        dump_logs := dump_logs c \<or> 8 < length ps\<rparr>) (snd (heap_alloc b h))"
    by (auto simp: log_env_ok_def)
  have same: "c\<lparr>logdump := x, dump_logs := dump_logs c \<or> 8 < length ps\<rparr> = c\<lparr>logdump := x\<rparr>" for x
    using i(2) ps(1) assms(2) by (cases c) simp
  have "map Some ps @ Some (next_ptr h) # replicate (16 - Suc n) None = map Some (ps @ [next_ptr h]) @ replicate (16 - Suc n) None"
    by simp
  then have "logs_used (Suc n) (c\<lparr>logdump := map Some ps @ Some (next_ptr h) # replicate (16 - Suc n) None\<rparr>) (snd (heap_alloc b h))"
    using inv i(2) ps(1) unfolding same logs_used_def
    by (auto intro!: exI[of _ "ps @ [next_ptr h]"])
  with d show ?thesis unfolding same by blast
qed

text \<open>Contexts that agree but for the log, and fields the log invariant does not see.\<close>

lemma logs_used_cong: "logs_used n c h \<Longrightarrow> logdump c' = logdump c \<Longrightarrow> dump_logs c' = dump_logs c \<Longrightarrow> logs_used n c' h"
  by (simp add: logs_used_def log_inv_def)

section \<open>A turn with nothing requested\<close>

lemma turn_quiet:
  assumes "run_handler env d = Some (0, d1, calls)" "loop_state (dev_ctx d1) \<notin> {LOGDUMP, LOOP_STATE_COUNT}"
    and "\<not> reset (dev_ctx d1)" "\<not> set_publish (dev_ctx d1)" "\<not> dump_logs (dev_ctx d1)"
  shows "\<exists>calls'. loop_turn env d = Some (d1\<lparr>dev_ctx := (dev_ctx d1)\<lparr>loop_state := successor (dev_ctx d1)\<rparr>\<rparr>, calls')"
proof -
  have "apply_dump (apply_publish (apply_reset ((dev_ctx d1)\<lparr>loop_state := s\<rparr>))) = (dev_ctx d1)\<lparr>loop_state := s\<rparr>" for s
    using assms(3-5) by (simp add: apply_defs)
  then have "update_state (le_update_log env) (dev_ctx d1) (dev_heap d1) =
      Some ((dev_ctx d1)\<lparr>loop_state := successor (dev_ctx d1)\<rparr>, dev_heap d1)"
    using update_state_Some[of "dev_ctx d1" "dev_heap d1"] assms(2) by simp
  then show ?thesis
    using assms(1) by (cases d1) (simp add: loop_turn_def log_handler_err_def basicio_init_handler_def)
qed

section \<open>The stages of the way to the first sample\<close>

text \<open>Everything succeeds, and the device address has the zero byte that ends the client id.\<close>

definition mqtt_env_good :: "mqtt_env \<Rightarrow> bool" where
  "mqtt_env_good env \<longleftrightarrow> mqtt_env_ok env \<and> 0 \<in> set (dev_mac env) \<and> payload_malloc env \<and> client_calloc env \<and> client_new env \<and>
     (\<forall>s p. wifi_connect env s p = 0) \<and> (\<forall>a. ip4addr_aton env a \<noteq> None) \<and>
     (\<forall>t m. publish_err env t m = ERR_OK) \<and> (\<forall>i. log_env_ok (conn_log env i))"

text \<open>A turn in which every call succeeds.\<close>

definition turn_env_ok :: "loop_env \<Rightarrow> bool" where
  "turn_env_ok env \<longleftrightarrow> (\<forall>i. flash_dev_ok (le_flash env i)) \<and> mqtt_env_good (le_mqtt env) \<and>
     (\<forall>i. i2c_env_ok (le_i2c env i)) \<and> i2c_init_baud (le_i2c env 0) = 100000 \<and>
     calloc_ok (le_ntp env) \<and> udp_new_ok (le_ntp env)"

definition at_stage :: "nat \<Rightarrow> loop_state \<Rightarrow> string \<Rightarrow> device \<Rightarrow> bool" where
  "at_stage n s t d \<longleftrightarrow> logs_used n (dev_ctx d) (dev_heap d) \<and> loop_state (dev_ctx d) = s \<and>
     \<not> reset (dev_ctx d) \<and> \<not> set_publish (dev_ctx d) \<and> wifi_configd (dev_ctx d) \<and>
     c_str (prv_token (dev_ctx d)) = Some t \<and> c_str (wifi_ssid (dev_ctx d)) \<noteq> None \<and>
     c_str (wifi_pass (dev_ctx d)) \<noteq> None \<and> c_str (hub_loc (dev_ctx d)) \<noteq> None"

text \<open>What the later stages have gained: a client, the sensor, a clock that runs.\<close>

definition connected :: "app_ctx \<Rightarrow> bool" where
  "connected c \<longleftrightarrow> mqtt_initd c \<and> (\<exists>st. mqtt_client c = Some st \<and> lwip_client st)"

lemma at_stage_same:
  assumes "at_stage n s t d" "dev_heap d' = dev_heap d" "loop_state (dev_ctx d') = s'"
    and "logdump (dev_ctx d') = logdump (dev_ctx d)" "dump_logs (dev_ctx d') = dump_logs (dev_ctx d)"
    and "reset (dev_ctx d') = reset (dev_ctx d)" "set_publish (dev_ctx d') = set_publish (dev_ctx d)"
    and "wifi_configd (dev_ctx d') = wifi_configd (dev_ctx d)" "prv_token (dev_ctx d') = prv_token (dev_ctx d)"
    and "wifi_ssid (dev_ctx d') = wifi_ssid (dev_ctx d)" "wifi_pass (dev_ctx d') = wifi_pass (dev_ctx d)"
    and "hub_loc (dev_ctx d') = hub_loc (dev_ctx d)"
  shows "at_stage n s' t d'"
  using assms logs_used_cong[of n "dev_ctx d" "dev_heap d" "dev_ctx d'"] by (simp add: at_stage_def)

lemma at_stage_quiet: "at_stage n s t d \<Longrightarrow> \<not> reset (dev_ctx d) \<and> \<not> set_publish (dev_ctx d) \<and> \<not> dump_logs (dev_ctx d)"
  by (simp add: at_stage_def logs_used_def)

text \<open>A turn whose handler changes neither the log nor the texts.\<close>

lemma stage_turn:
  assumes st: "at_stage n s t d" and run: "run_handler env d = Some (0, d\<lparr>dev_ctx := c\<rparr>, calls)"
    and c: "loop_state c = s" "s \<notin> {LOGDUMP, LOOP_STATE_COUNT}" "successor c = s'"
      "logdump c = logdump (dev_ctx d)" "dump_logs c = dump_logs (dev_ctx d)" "reset c = reset (dev_ctx d)"
      "set_publish c = set_publish (dev_ctx d)" "wifi_configd c = wifi_configd (dev_ctx d)" "prv_token c = prv_token (dev_ctx d)"
      "wifi_ssid c = wifi_ssid (dev_ctx d)" "wifi_pass c = wifi_pass (dev_ctx d)" "hub_loc c = hub_loc (dev_ctx d)"
  shows "\<exists>d' calls. loop_turn env d = Some (d', calls) \<and> at_stage n s' t d' \<and> dev_ctx d' = c\<lparr>loop_state := s'\<rparr>"
proof -
  have q: "\<not> reset c" "\<not> set_publish c" "\<not> dump_logs c" using at_stage_quiet[OF st] c by simp_all
  from turn_quiet[OF run] c(1,2) q obtain calls' where
    l: "loop_turn env d = Some (d\<lparr>dev_ctx := c\<lparr>loop_state := s'\<rparr>\<rparr>, calls')" using c(3) by auto
  have "at_stage n s' t (d\<lparr>dev_ctx := c\<lparr>loop_state := s'\<rparr>\<rparr>)"
    by (rule at_stage_same[OF st]) (simp_all add: c)
  with l show ?thesis by (intro exI[of _ "d\<lparr>dev_ctx := c\<lparr>loop_state := s'\<rparr>\<rparr>"] exI[of _ calls']) simp
qed

lemma self_update: "d\<lparr>dev_ctx := dev_ctx d\<rparr> = (d :: device)"
  by simp

lemma turn_sense_init:
  assumes "at_stage n SENSE_INIT t d" "turn_env_ok env"
  shows "\<exists>d' calls. loop_turn env d = Some (d', calls) \<and> at_stage n NTP_SYNC t d' \<and>
    dev_ctx d' = (dev_ctx d)\<lparr>sense_initd := True, loop_state := NTP_SYNC\<rparr>"
proof -
  have "run_handler env d = Some (0, d\<lparr>dev_ctx := (dev_ctx d)\<lparr>sense_initd := True\<rparr>\<rparr>, [])"
    using assms by (simp add: run_handler_def at_stage_def turn_env_ok_def sense_init_handler_def sensor_init_def
        BAUDRATE_def Let_def)
  from stage_turn[OF assms(1) this] assms(1) show ?thesis by (simp add: at_stage_def successor_def)
qed

lemma turn_listen:
  assumes "at_stage n s t d" "s = MQTT_LISTEN \<and> s' = BATT_LISTEN \<or> s = BATT_LISTEN \<and> s' = SENSE_LISTEN"
  shows "\<exists>d' calls. loop_turn env d = Some (d', calls) \<and> at_stage n s' t d' \<and>
    dev_ctx d' = (dev_ctx d)\<lparr>loop_state := s'\<rparr>"
proof -
  have "run_handler env d = Some (0, d\<lparr>dev_ctx := dev_ctx d\<rparr>, [])"
    using assms by (auto simp: run_handler_def at_stage_def mqtt_listen_handler_def batt_listen_handler_def Let_def)
  from stage_turn[OF assms(1) this] assms show ?thesis by (auto simp: at_stage_def successor_def)
qed

text \<open>The sampling handler returns nothing and the loop uses its value: no turn there completes.\<close>

lemma turn_sense_listen: "loop_state (dev_ctx d) = SENSE_LISTEN \<Longrightarrow> loop_turn env d = None"
  by (auto simp: loop_turn_def run_handler_def sense_listen_handler_def Let_def bind_eq_None_conv)

text \<open>The publish: a short contract leaves room for two readings of five digits.\<close>

lemma length_dec_u16: "length (dec (unat (w :: u16))) \<le> 5"
  using length_dec_le[of 5 "unat w"] unat_u16_lt[of w] by simp

lemma breadcrumb_of_stage:
  assumes "at_stage n s t d" "mqtt_env_ok env" "payload_malloc env" "connected (dev_ctx d)" "length t < 40"
  shows "\<exists>m. breadcrumb env (dev_ctx d) =
      Some (if publish_err env TOPIC_BREADCRUMB m \<noteq> ERR_OK then DT_ERR_LWIPERR else DT_ERR_OK, [Mqtt_publish TOPIC_BREADCRUMB m]) \<and>
    m @ ''}'' = breadcrumb_json (dev_mac env) t (capacitance (dev_ctx d)) (temperature (dev_ctx d))"
proof -
  obtain st where st: "mqtt_client (dev_ctx d) = Some st" "lwip_client st" using assms(4) by (auto simp: connected_def)
  have tok: "c_str (prv_token (dev_ctx d)) = Some t" using assms(1) by (simp add: at_stage_def)
  have "length (breadcrumb_body (dev_mac env) t (capacitance (dev_ctx d)) (temperature (dev_ctx d))) < 128"
    using assms(5) length_dec_u16[of "capacitance (dev_ctx d)"] length_dec_u16[of "temperature (dev_ctx d)"]
    by (simp add: breadcrumb_body_length)
  with breadcrumb_sends[OF assms(2,3) tok st] show ?thesis by (auto simp: Let_def breadcrumb_json_body)
qed

lemma turn_publish:
  assumes "at_stage n MQTT_PUBLISH t d" "turn_env_ok env" "connected (dev_ctx d)" "length t < 40"
  shows "\<exists>d' calls m. loop_turn env d = Some (d', calls) \<and> at_stage n MQTT_LISTEN t d' \<and>
    dev_ctx d' = (dev_ctx d)\<lparr>loop_state := MQTT_LISTEN\<rparr> \<and> On_mqtt (Mqtt_publish TOPIC_BREADCRUMB m) \<in> set calls \<and>
    m @ ''}'' = breadcrumb_json (dev_mac (le_mqtt env)) t (capacitance (dev_ctx d)) (temperature (dev_ctx d))"
proof -
  have e: "mqtt_env_ok (le_mqtt env)" "payload_malloc (le_mqtt env)" "\<forall>t m. publish_err (le_mqtt env) t m = ERR_OK"
    using assms(2) by (simp_all add: turn_env_ok_def mqtt_env_good_def)
  from breadcrumb_of_stage[OF assms(1) e(1,2) assms(3,4)] e(3) obtain m where
    m: "breadcrumb (le_mqtt env) (dev_ctx d) = Some (DT_ERR_OK, [Mqtt_publish TOPIC_BREADCRUMB m])"
      "m @ ''}'' = breadcrumb_json (dev_mac (le_mqtt env)) t (capacitance (dev_ctx d)) (temperature (dev_ctx d))" by auto
  then have r: "run_handler env d = Some (0, d\<lparr>dev_ctx := dev_ctx d\<rparr>, [On_mqtt (Mqtt_publish TOPIC_BREADCRUMB m)])"
    using assms(1) by (simp add: run_handler_def at_stage_def mqtt_publish_handler_def)
  from stage_turn[OF assms(1) r] assms(1) obtain d' calls where
    l: "loop_turn env d = Some (d', calls)" "at_stage n MQTT_LISTEN t d'" "dev_ctx d' = (dev_ctx d)\<lparr>loop_state := MQTT_LISTEN\<rparr>"
    by (auto simp: at_stage_def successor_def)
  have "On_mqtt (Mqtt_publish TOPIC_BREADCRUMB m) \<in> set calls"
    using l(1) r by (auto simp: loop_turn_def log_handler_err_def basicio_init_handler_def bind_eq_Some_conv)
  with l m(2) show ?thesis by blast
qed

section \<open>Turns that fail\<close>

text \<open>A sensor that does not come up costs a log line; the loop tries again.\<close>

lemma turn_sense_fails:
  assumes "at_stage n SENSE_INIT t d" "n \<le> 8" "\<not> sense_initd (dev_ctx d)"
    and "i2c_init_baud (le_i2c env 0) \<noteq> 100000" "log_env_ok (le_err_log env)"
  shows "\<exists>d' calls slots. loop_turn env d = Some (d', calls) \<and> at_stage (Suc n) SENSE_INIT t d' \<and>
    dev_ctx d' = (dev_ctx d)\<lparr>logdump := slots\<rparr>"
proof -
  let ?c = "dev_ctx d" and ?r = "int (length (baud_warning (i2c_init_baud (le_i2c env 0))))"
  have st: "loop_state ?c = SENSE_INIT" "logs_used n ?c (dev_heap d)" using assms(1) by (simp_all add: at_stage_def)
  have r: "run_handler env d = Some (?r, d, [])" "?r \<noteq> 0"
    using st(1) assms(4) sense_init_guard[of "le_i2c env 0" ?c] by (simp_all add: run_handler_def Let_def baud_warning_def)
  have "is_cstring (dec_int ?r @ [NL])" by (simp add: dec_int_cstring)
  from dlog_used[OF st(2) assms(2,5) this, of LOG_ERR] obtain slots h where
    l: "dlog (le_err_log env) ?c (dev_heap d) LOG_ERR (dec_int ?r @ [NL]) = Some (DT_ERR_OK, ?c\<lparr>logdump := slots\<rparr>, h)"
      "logs_used (Suc n) (?c\<lparr>logdump := slots\<rparr>) h" by blast
  let ?d = "d\<lparr>dev_ctx := ?c\<lparr>logdump := slots\<rparr>, dev_heap := h\<rparr>"
  have at: "at_stage (Suc n) SENSE_INIT t ?d" using assms(1) l(2) by (simp add: at_stage_def)
  note q = at_stage_quiet[OF at]
  have u: "update_state (le_update_log env) (?c\<lparr>logdump := slots\<rparr>) h = Some (?c\<lparr>logdump := slots\<rparr>, h)"
    using st(1) q assms(3) update_state_Some[of "?c\<lparr>logdump := slots\<rparr>" h]
    by (simp add: successor_def apply_defs)
  have "loop_turn env d = Some (?d, map On_gpio [Gpio_init RESET_BUTTON_PIN, Gpio_set_dir_in RESET_BUTTON_PIN])"
    using r l(1) u by (simp add: loop_turn_def log_handler_err_def basicio_init_handler_def)
  with at show ?thesis by (intro exI[of _ ?d]) auto
qed

text \<open>A publish that fails when nine lines are stored asks for the log dump, which comes next.\<close>

lemma turn_publish_fails:
  assumes "at_stage 9 MQTT_PUBLISH t d" "connected (dev_ctx d)" "online (dev_ctx d)" "length t < 40"
    and "mqtt_env_ok (le_mqtt env)" "payload_malloc (le_mqtt env)" "\<forall>t m. publish_err (le_mqtt env) t m \<noteq> ERR_OK"
    and "log_env_ok (le_err_log env)"
  shows "\<exists>d' calls. loop_turn env d = Some (d', calls) \<and> loop_state (dev_ctx d') = LOGDUMP"
proof -
  let ?c = "dev_ctx d" and ?e = "err_code DT_ERR_LWIPERR"
  from breadcrumb_of_stage[OF assms(1,5,6,2,4)] assms(7) obtain m where
    "breadcrumb (le_mqtt env) ?c = Some (DT_ERR_LWIPERR, [Mqtt_publish TOPIC_BREADCRUMB m])" by auto
  then have r: "run_handler env d = Some (?e, d, [On_mqtt (Mqtt_publish TOPIC_BREADCRUMB m)])" "?e \<noteq> 0"
    using assms(1) by (simp_all add: run_handler_def at_stage_def mqtt_publish_handler_def)
  from assms(1) obtain ps where ps: "log_inv ?c (dev_heap d)" "length ps = 9" "logdump ?c = map Some ps @ None # replicate 6 None"
    by (auto simp: at_stage_def logs_used_def replicate_numeral)
  have "is_cstring (dec_int ?e @ [NL])" by (simp add: dec_int_cstring)
  from dlog_stores[OF ps(1) _ _ this ps(3), of "le_err_log env" LOG_ERR] assms(8) ps(2) obtain c h slots where
    l: "dlog (le_err_log env) ?c (dev_heap d) LOG_ERR (dec_int ?e @ [NL]) = Some (DT_ERR_OK, c, h)"
      "c = ?c\<lparr>logdump := slots, dump_logs := True\<rparr>" by (auto simp: log_env_ok_def)
  have f: "loop_state c = MQTT_PUBLISH" "\<not> reset c" "dump_logs c" "online c"
    using assms(1,3) l(2) by (simp_all add: at_stage_def online_def)
  obtain c' where u: "update_state (le_update_log env) c h = Some (c', h)" "loop_state c' = LOGDUMP"
    using f update_state_Some[of c h] apply_next_state[of c] by (simp add: next_state_def)
  have "loop_turn env d = Some (d\<lparr>dev_ctx := c', dev_heap := h\<rparr>,
      On_mqtt (Mqtt_publish TOPIC_BREADCRUMB m) # map On_gpio [Gpio_init RESET_BUTTON_PIN, Gpio_set_dir_in RESET_BUTTON_PIN])"
    using r l(1) u(1) by (simp add: loop_turn_def log_handler_err_def basicio_init_handler_def)
  with u(2) show ?thesis by auto
qed

section \<open>The clock\<close>

lemma ntp_poll_synced: "synced (fst (ntp_poll env st)) = synced st"
  by (auto simp: ntp_poll_def ntp_sync_done_def Let_def split: option.splits prod.splits if_splits)

lemma turn_ntp:
  assumes "at_stage n NTP_SYNC t d" "turn_env_ok env"
    and "ntp_state (dev_ctx d) = None \<and> \<not> on \<or> (\<exists>st. ntp_state (dev_ctx d) = Some st \<and> synced st = on)"
    and "\<not> ntp_syncd (dev_ctx d)"
  shows "\<exists>d' calls st'. loop_turn env d = Some (d', calls) \<and> at_stage n (if on then MQTT_PUBLISH else NTP_SYNC) t d' \<and>
    synced st' = on \<and> dev_ctx d' = (dev_ctx d)\<lparr>ntp_state := Some st', ntp_syncd := on,
      loop_state := if on then MQTT_PUBLISH else NTP_SYNC\<rparr>"
proof -
  obtain st0 where st0: "(if ntp_state (dev_ctx d) = None then ntp_init (le_ntp env) else ntp_state (dev_ctx d)) = Some st0"
    "synced st0 = on"
    using assms(2,3) by (auto simp: turn_env_ok_def ntp_init_def)
  obtain st' calls where p: "ntp_poll (le_ntp env) st0 = (st', calls)" by (metis prod.exhaust)
  then have on: "synced st' = on" using ntp_poll_synced[of "le_ntp env" st0] st0(2) by simp
  let ?c = "(dev_ctx d)\<lparr>ntp_state := Some st', ntp_syncd := on\<rparr>"
  have same: "(dev_ctx d)\<lparr>ntp_state := Some st'\<rparr> = ?c" if "\<not> on" using assms(4) that by (cases "dev_ctx d") simp
  have "ntp_sync_handler (le_ntp env) (le_ntp_log env) (dev_ctx d) (dev_heap d) = Some (DT_ERR_OK, ?c, dev_heap d, calls)"
    using st0(1) p on same by (cases on) (auto simp: ntp_sync_handler_def Let_def split: if_splits)
  then have "run_handler env d = Some (0, d\<lparr>dev_ctx := ?c\<rparr>, map On_ntp calls)"
    using assms(1) by (cases d) (simp add: run_handler_def at_stage_def)
  from stage_turn[OF assms(1) this, of "if on then MQTT_PUBLISH else NTP_SYNC"] assms(1) obtain d' calls' where
    "loop_turn env d = Some (d', calls')" "at_stage n (if on then MQTT_PUBLISH else NTP_SYNC) t d'"
    "dev_ctx d' = ?c\<lparr>loop_state := if on then MQTT_PUBLISH else NTP_SYNC\<rparr>"
    by (auto simp: at_stage_def successor_def)
  with on show ?thesis by blast
qed


text \<open>The DNS answer and the server's datagram that set the clock.\<close>

definition clock_events :: "ntp_env \<Rightarrow> u32 \<Rightarrow> u8 list \<Rightarrow> dev_event list" where
  "clock_events ne a p = [Ntp (Dns_answer ne (Some a)), Ntp (Datagram ne std_pbuf p a NTP_PORT)]"

definition server_reply :: "u8 list \<Rightarrow> bool" where
  "server_reply p \<longleftrightarrow> length p = NTP_MSG_LEN \<and> p ! 0 AND 7 = 4 \<and> p ! 1 \<noteq> 0"

lemma ntp_recv_synced:
  assumes "ntp_valid st p a port"
  shows "\<exists>st' calls. ntp_recv ne std_pbuf st p a port = Some (st', calls) \<and> synced st'"
proof -
  let ?st = "st\<lparr>epoch_secs := ucast (secs_1970 (be32 (take 4 (drop 40 p)))), hw_ref_ms := now_ms ne, synced := True\<rparr>"
  obtain st' calls where "ntp_sync_done ne ?st True = (st', calls)" by (metis prod.exhaust)
  with ntp_recv_valid[OF std_pbuf_ok assms, of ne] ntp_sync_done_fields(3)[of ne ?st True] show ?thesis by simp
qed

lemma clock_set:
  assumes "at_stage n NTP_SYNC t d" "ntp_state (dev_ctx d) = Some st" "server_reply p"
  shows "\<exists>d' st'. run_events dev_step d (clock_events ne a p) d' \<and> at_stage n NTP_SYNC t d' \<and> synced st' \<and>
    dev_ctx d' = (dev_ctx d)\<lparr>ntp_state := Some st'\<rparr>"
proof -
  let ?st1 = "st\<lparr>ntp_server_address := a\<rparr>"
  let ?d1 = "d\<lparr>dev_ctx := (dev_ctx d)\<lparr>ntp_state := Some ?st1\<rparr>\<rparr>"
  have 1: "dev_step d (Ntp (Dns_answer ne (Some a))) ?d1"
    using step_ntp[where d = d and ev = "Dns_answer ne (Some a)", OF assms(2)] by (simp add: ntp_dns_found_def Let_def)
  have "ntp_valid ?st1 p a NTP_PORT" using assms(3) by (simp add: ntp_valid_def server_reply_def)
  from ntp_recv_synced[OF this, of ne] obtain st' calls where
    r: "ntp_recv ne std_pbuf ?st1 p a NTP_PORT = Some (st', calls)" "synced st'" by blast
  let ?d2 = "?d1\<lparr>dev_ctx := (dev_ctx ?d1)\<lparr>ntp_state := Some st'\<rparr>\<rparr>"
  have 2: "dev_step ?d1 (Ntp (Datagram ne std_pbuf p a NTP_PORT)) ?d2"
    by (rule step_ntp[of ?d1 ?st1 _ st' calls]) (simp_all add: r)
  have "run_events dev_step d (clock_events ne a p) ?d2"
    unfolding clock_events_def using 1 2 by auto
  moreover have "at_stage n NTP_SYNC t ?d2"
    by (rule at_stage_same[OF assms(1)]) (use assms(1) in \<open>simp_all add: at_stage_def\<close>)
  ultimately show ?thesis using r(2) by (intro exI[of _ ?d2] exI[of _ st']) simp
qed

section \<open>Connecting\<close>

lemma mqtt_init_finish_ok:
  assumes "mqtt_env_good env" "c_str (prv_token c) = Some t" "length t < 64" "mqtt_client c = Some st" "lwip_client st"
  shows "\<exists>calls'. mqtt_init_finish env c h calls = Some (0, c\<lparr>mqtt_initd := True\<rparr>, h, calls')"
proof -
  obtain x where x: "rd (prv_token c) 0 = Some x" using c_str_Some[OF assms(2)] by (cases "prv_token c") (auto simp: rd_def)
  have e: "mqtt_env_ok env" "payload_malloc env" "\<forall>t m. publish_err env t m = ERR_OK"
    using assms(1) by (simp_all add: mqtt_env_good_def)
  from provision_sends[OF e(1,2) assms(2-5)] e(3) show ?thesis
    using x by (auto simp: mqtt_init_finish_def Let_def)
qed

lemma mqtt_init_connects:
  assumes "at_stage n MQTT_INIT t d" "n \<le> 7" "mqtt_env_good env" "length t < 64"
  shows "\<exists>st c' h' calls slots. mqtt_init_handler env (dev_ctx d) (dev_heap d) = Some (0, c', h', calls) \<and>
    c' = (dev_ctx d)\<lparr>logdump := slots, mqtt_client := Some st, mqtt_initd := True\<rparr> \<and> lwip_client st \<and> logs_used (Suc (Suc n)) c' h'"
proof -
  let ?c = "dev_ctx d"
  obtain s p hub where fields: "c_str (wifi_ssid ?c) = Some s" "c_str (wifi_pass ?c) = Some p" "c_str (hub_loc ?c) = Some hub"
    "c_str (prv_token ?c) = Some t" "wifi_configd ?c"
    using assms(1) by (auto simp: at_stage_def)
  have env: "log_env_ok (conn_log env i)" "client_calloc env" "client_new env" "wifi_connect env s p = 0" for i
    using assms(3) by (simp_all add: mqtt_env_good_def)
  obtain a where a: "ip4addr_aton env hub = Some a" using assms(3) unfolding mqtt_env_good_def by blast
  have "is_cstring (''connecting to '' @ s @ [NL])" using c_str_Some[OF fields(1)] by simp
  from dlog_used[OF _ _ env(1) this, of n ?c "dev_heap d" 0 LOG_INFO] assms(1,2) obtain s1 h1 where
    l1: "dlog (conn_log env 0) ?c (dev_heap d) LOG_INFO (''connecting to '' @ s @ [NL]) = Some (DT_ERR_OK, ?c\<lparr>logdump := s1\<rparr>, h1)"
    "logs_used (Suc n) (?c\<lparr>logdump := s1\<rparr>) h1" by (auto simp: at_stage_def)
  have "is_cstring (''Connected.'' @ [NL])" by simp
  from dlog_used[OF l1(2) _ env(1) this, of 1 LOG_INFO] assms(2) obtain s2 h2 where
    l2: "dlog (conn_log env 1) (?c\<lparr>logdump := s1\<rparr>) h1 LOG_INFO (''Connected.'' @ [NL]) = Some (DT_ERR_OK, ?c\<lparr>logdump := s2\<rparr>, h2)"
    "logs_used (Suc (Suc n)) (?c\<lparr>logdump := s2\<rparr>) h2" by auto
  let ?st = "\<lparr>remote_addr = a, lwip_client = True, received = 0, counter = 0, reconnect = 0\<rparr>"
  let ?c4 = "?c\<lparr>logdump := s2, mqtt_client := Some ?st\<rparr>"
  have f: "\<exists>calls'. mqtt_init_finish env ?c4 h2 calls = Some (0, ?c4\<lparr>mqtt_initd := True\<rparr>, h2, calls')" for calls
    by (rule mqtt_init_finish_ok[OF assms(3) _ assms(4), where st = ?st]) (simp_all add: fields)
  have "0 \<in> set (dev_mac env)" using assms(3) by (simp add: mqtt_env_good_def)
  then obtain e calls where "mqtt_connect env ?st = Some (e, calls)" using mqtt_connect_defined by blast
  then obtain calls' where
    "mqtt_init_handler env ?c (dev_heap d) = Some (0, ?c4\<lparr>mqtt_initd := True\<rparr>, h2, calls')"
    using f[of "if e = DT_ERR_OK then calls @ [Mqtt_set_inpub] else calls"] l1(1) l2(1)
    by (auto simp: mqtt_init_handler_def fields env a mqtt_client_init_def)
  moreover have "logs_used (Suc (Suc n)) (?c4\<lparr>mqtt_initd := True\<rparr>) h2" by (rule logs_used_cong[OF l2(2)]) simp_all
  ultimately show ?thesis by (intro exI[of _ ?st] exI[of _ "?c4\<lparr>mqtt_initd := True\<rparr>"] exI[of _ h2] exI[of _ calls'] exI[of _ s2]) simp
qed

lemma turn_mqtt_init:
  assumes "at_stage n MQTT_INIT t d" "n \<le> 7" "turn_env_ok env" "length t < 64"
  shows "\<exists>d' calls st slots. loop_turn env d = Some (d', calls) \<and> at_stage (Suc (Suc n)) SENSE_INIT t d' \<and> lwip_client st \<and>
    dev_ctx d' = (dev_ctx d)\<lparr>logdump := slots, mqtt_client := Some st, mqtt_initd := True, loop_state := SENSE_INIT\<rparr>"
proof -
  from mqtt_init_connects[OF assms(1,2) _ assms(4), of "le_mqtt env"] assms(3) obtain st h' calls slots where
    m: "mqtt_init_handler (le_mqtt env) (dev_ctx d) (dev_heap d) =
      Some (0, (dev_ctx d)\<lparr>logdump := slots, mqtt_client := Some st, mqtt_initd := True\<rparr>, h', calls)"
    "lwip_client st" "logs_used (Suc (Suc n)) ((dev_ctx d)\<lparr>logdump := slots, mqtt_client := Some st, mqtt_initd := True\<rparr>) h'"
    by (auto simp: turn_env_ok_def)
  let ?c = "(dev_ctx d)\<lparr>logdump := slots, mqtt_client := Some st, mqtt_initd := True\<rparr>"
  let ?d1 = "d\<lparr>dev_ctx := ?c, dev_heap := h'\<rparr>"
  have "run_handler env d = Some (0, ?d1, map On_mqtt calls)"
    using m(1) assms(1) by (simp add: run_handler_def at_stage_def)
  moreover have st: "at_stage (Suc (Suc n)) MQTT_INIT t ?d1" using assms(1) m(3) by (simp add: at_stage_def)
  ultimately obtain calls' where
    l: "loop_turn env d = Some (?d1\<lparr>dev_ctx := ?c\<lparr>loop_state := SENSE_INIT\<rparr>\<rparr>, calls')"
    using turn_quiet[of env d ?d1] at_stage_quiet[OF st] assms(1) by (auto simp: at_stage_def successor_def)
  moreover have "at_stage (Suc (Suc n)) SENSE_INIT t (?d1\<lparr>dev_ctx := ?c\<lparr>loop_state := SENSE_INIT\<rparr>\<rparr>)"
    by (rule at_stage_same[OF st]) simp_all
  ultimately show ?thesis using m(2)
    by (intro exI[of _ "?d1\<lparr>dev_ctx := ?c\<lparr>loop_state := SENSE_INIT\<rparr>\<rparr>"] exI[of _ calls'] exI[of _ st] exI[of _ slots]) simp
qed


section \<open>The start\<close>

text \<open>A start in which the radio comes up and the log has room.\<close>

definition start_ok :: "start_env \<Rightarrow> bool" where
  "start_ok env \<longleftrightarrow> st_calloc env \<and> st_cyw43 env = 0 \<and> is_cstring (st_hub_loc env) \<and> length (st_hub_loc env) < 64 \<and>
     log_env_ok (st_log env 0) \<and> log_env_ok (st_log env 1)"

lemma logs_used_zero: "logs_used 0 (zero_ctx\<lparr>hub_loc := hub\<rparr>) \<lparr>blocks = Map.empty, next_ptr = 0\<rparr>"
  using log_inv_start by (simp add: logs_used_def log_inv_def) (simp add: zero_ctx_def)

lemma start_runs:
  assumes "start_ok env"
  shows "\<exists>d hub slots. main_start env fl = Some (Inr d) \<and> dev_ctx d = zero_ctx\<lparr>hub_loc := hub, logdump := slots\<rparr> \<and>
    c_str hub = Some (st_hub_loc env) \<and> logs_used 2 (dev_ctx d) (dev_heap d) \<and> dev_flash d = fl"
proof -
  let ?hub = "st_hub_loc env @ NUL # replicate (63 - length (st_hub_loc env)) NUL"
  have cs: "is_cstring (st_hub_loc env)" and len: "length (st_hub_loc env) < 64" using assms by (simp_all add: start_ok_def)
  have hub: "c_strcpy (hub_loc zero_ctx) 0 (st_hub_loc env) = Some ?hub"
    using len by (simp add: c_strcpy_def blit_def zero_ctx_def)
  have h: "c_str ?hub = Some (st_hub_loc env)" by (rule c_str_terminated[OF cs])
  have m: "is_cstring (''HUB_LOC set to '' @ st_hub_loc env @ [NL])" "is_cstring (''CYW43 Initialized'' @ [NL])" using cs by simp_all
  have env: "log_env_ok (st_log env 0)" "log_env_ok (st_log env 1)" using assms by (simp_all add: start_ok_def)
  from dlog_used[OF logs_used_zero _ env(1) m(1), of ?hub LOG_INFO] obtain s1 h1 where
    l1: "dlog (st_log env 0) (zero_ctx\<lparr>hub_loc := ?hub\<rparr>) \<lparr>blocks = Map.empty, next_ptr = 0\<rparr> LOG_INFO (''HUB_LOC set to '' @ st_hub_loc env @ [NL]) =
      Some (DT_ERR_OK, zero_ctx\<lparr>hub_loc := ?hub, logdump := s1\<rparr>, h1)" "logs_used 1 (zero_ctx\<lparr>hub_loc := ?hub, logdump := s1\<rparr>) h1"
    by auto
  from dlog_used[OF l1(2) _ env(2) m(2), of LOG_INFO] obtain s2 h2 where
    l2: "dlog (st_log env 1) (zero_ctx\<lparr>hub_loc := ?hub, logdump := s1\<rparr>) h1 LOG_INFO (''CYW43 Initialized'' @ [NL]) =
      Some (DT_ERR_OK, zero_ctx\<lparr>hub_loc := ?hub, logdump := s2\<rparr>, h2)" "logs_used 2 (zero_ctx\<lparr>hub_loc := ?hub, logdump := s2\<rparr>) h2"
    by (auto simp: numeral_2_eq_2)
  have "main_start env fl = Some (Inr \<lparr>dev_ctx = zero_ctx\<lparr>hub_loc := ?hub, logdump := s2\<rparr>, dev_heap = h2, dev_flash = fl,
      dev_host = \<lparr>hosting = False, ap_server = None, ap_leases = None\<rparr>, dev_inpub = inpub_start\<rparr>)"
    using assms l1(1) l2(1) hub by (simp add: main_start_def start_ok_def basicio_init_handler_def)
  with l2(2) h show ?thesis by (intro exI conjI) (assumption | simp)+
qed

lemma flash_init_fields:
  assumes "flash_init_handler dev ctx fl = Some (e, c, fl')"
  shows "\<exists>s p t w f fw. c = ctx\<lparr>wifi_ssid := s, wifi_pass := p, prv_token := t, wifi_configd := w, flash_initd := f, flash_written := fw\<rparr>"
proof -
  have id: "ctx = ctx\<lparr>wifi_ssid := wifi_ssid ctx, wifi_pass := wifi_pass ctx, prv_token := prv_token ctx,
    wifi_configd := wifi_configd ctx, flash_initd := flash_initd ctx, flash_written := flash_written ctx\<rparr>" by simp
  show ?thesis
    using assms unfolding flash_init_handler_def Let_def
    by (elim some_elims; cases ctx; force)
qed

lemma turn_flash_init:
  assumes d: "dev_ctx d = zero_ctx\<lparr>hub_loc := hub, logdump := slots\<rparr>" "logs_used n (dev_ctx d) (dev_heap d)" "c_str hub = Some x" "ctx_wf (dev_ctx d)"
    and rep: "store_rep (dev_flash d) m" and look: "map_of m ''ssid'' = Some s" "map_of m ''password'' = Some p" "map_of m ''contract'' = Some t"
    and v: "cred_value s" "cred_value p" "cred_value t" and env: "turn_env_ok env"
  shows "\<exists>d' calls. loop_turn env d = Some (d', calls) \<and> at_stage n MQTT_INIT t d' \<and> ntp_state (dev_ctx d') = None \<and>
    \<not> ntp_syncd (dev_ctx d') \<and> \<not> sense_initd (dev_ctx d') \<and> capacitance (dev_ctx d') = 0 \<and> temperature (dev_ctx d') = 0"
proof -
  have dev: "\<And>i. flash_dev_ok (le_flash env i)" using env by (simp add: turn_env_ok_def)
  from flash_init_handler_loads[where dev = "le_flash env", OF rep dev look v d(4)] obtain c where
    c: "flash_init_handler (le_flash env) (dev_ctx d) (dev_flash d) = Some (DT_ERR_OK, c, dev_flash d)"
    "has_creds c s p t" "wifi_configd c" "flash_initd c" by blast
  from flash_init_fields[OF c(1)] obtain b1 b2 b3 w f fw where
    cc: "c = (dev_ctx d)\<lparr>wifi_ssid := b1, wifi_pass := b2, prv_token := b3, wifi_configd := w, flash_initd := f, flash_written := fw\<rparr>" by blast
  have ls: "loop_state (dev_ctx d) = FLASH_INIT" "\<not> reset (dev_ctx d)" "\<not> set_publish (dev_ctx d)" "\<not> dump_logs (dev_ctx d)"
    "ntp_state (dev_ctx d) = None" "\<not> ntp_syncd (dev_ctx d)" "hub_loc (dev_ctx d) = hub"
    "\<not> sense_initd (dev_ctx d)" "capacitance (dev_ctx d) = 0" "temperature (dev_ctx d) = 0"
    using d(1) by (simp_all add: zero_ctx_def)
  let ?d1 = "d\<lparr>dev_ctx := c\<rparr>"
  have "run_handler env d = Some (0, ?d1, [])" using c(1) ls(1) by (cases d) (simp add: run_handler_def)
  from turn_quiet[OF this] obtain calls where
    "loop_turn env d = Some (?d1\<lparr>dev_ctx := c\<lparr>loop_state := successor c\<rparr>\<rparr>, calls)"
    using ls by (auto simp: cc)
  moreover have "successor c = MQTT_INIT" using c(3,4) ls(1) by (simp add: successor_def cc)
  moreover have "logs_used n (c\<lparr>loop_state := MQTT_INIT\<rparr>) (dev_heap d)"
    by (rule logs_used_cong[OF d(2)]) (simp_all add: cc)
  ultimately show ?thesis
    using c(2,3) ls d(3) by (auto simp: at_stage_def has_creds_def cc)
qed

section \<open>The whole way\<close>

lemma run_turn: "loop_turn env d = Some (d', calls) \<Longrightarrow> run_events dev_step d' evs d'' \<Longrightarrow> run_events dev_step d (Turn env # evs) d''"
  by (auto intro: step_turn)

lemma run_events_append: "run_events step s as s1 \<Longrightarrow> run_events step s1 bs s2 \<Longrightarrow> run_events step s (as @ bs) s2"
  by (induction as arbitrary: s) auto

text \<open>The events from the sensor to the publish: two turns, the clock, a turn.\<close>

definition sense_to_publish :: "loop_env \<Rightarrow> ntp_env \<Rightarrow> u32 \<Rightarrow> u8 list \<Rightarrow> dev_event list" where
  "sense_to_publish env ne a p = replicate 2 (Turn env) @ clock_events ne a p @ [Turn env]"

text \<open>The events from the start to the first publish: flash and broker before that.\<close>

definition to_publish :: "loop_env \<Rightarrow> ntp_env \<Rightarrow> u32 \<Rightarrow> u8 list \<Rightarrow> dev_event list" where
  "to_publish env ne a p = replicate 2 (Turn env) @ sense_to_publish env ne a p"

text \<open>What the stages before the sensor leave.\<close>

definition unsampled :: "app_ctx \<Rightarrow> bool" where
  "unsampled c \<longleftrightarrow> connected c \<and> ntp_state c = None \<and> \<not> ntp_syncd c \<and> \<not> sense_initd c \<and> capacitance c = 0 \<and> temperature c = 0"

lemma start_to_sense:
  assumes "start_ok senv" "turn_env_ok env" "store_rep fl m"
    and "map_of m ''ssid'' = Some s" "map_of m ''password'' = Some p" "map_of m ''contract'' = Some t"
    and "cred_value s" "cred_value p" "cred_value t" "length t < 40"
  shows "\<exists>d0 d. main_start senv fl = Some (Inr d0) \<and> run_events dev_step d0 (replicate 2 (Turn env)) d \<and>
    at_stage 4 SENSE_INIT t d \<and> unsampled (dev_ctx d)"
proof -
  from start_runs[OF assms(1), of fl] obtain d0 hub slots where
    d0: "main_start senv fl = Some (Inr d0)" "dev_ctx d0 = zero_ctx\<lparr>hub_loc := hub, logdump := slots\<rparr>"
    "c_str hub = Some (st_hub_loc senv)" "logs_used 2 (dev_ctx d0) (dev_heap d0)" "dev_flash d0 = fl" by blast
  have "ctx_wf (dev_ctx d0)" using start_fresh(1)[OF d0(1)] by (simp add: fresh_ctx_def)
  from turn_flash_init[OF d0(2,4,3) this _ assms(4-9,2)] assms(3) d0(5) obtain d1 c1 where
    d1: "loop_turn env d0 = Some (d1, c1)" "at_stage 2 MQTT_INIT t d1" "ntp_state (dev_ctx d1) = None" "\<not> ntp_syncd (dev_ctx d1)"
      "\<not> sense_initd (dev_ctx d1)" "capacitance (dev_ctx d1) = 0" "temperature (dev_ctx d1) = 0" by blast
  from turn_mqtt_init[OF d1(2) _ assms(2)] assms(10) obtain d2 c2 st slots2 where
    d2: "loop_turn env d1 = Some (d2, c2)" "at_stage 4 SENSE_INIT t d2" "lwip_client st"
    "dev_ctx d2 = (dev_ctx d1)\<lparr>logdump := slots2, mqtt_client := Some st, mqtt_initd := True, loop_state := SENSE_INIT\<rparr>"
    by (auto simp: eval_nat_numeral)
  have "unsampled (dev_ctx d2)" using d1(3-7) d2(3) by (simp add: unsampled_def connected_def d2(4))
  moreover have "run_events dev_step d0 (replicate 2 (Turn env)) d2"
    using d1(1) d2(1) by (auto simp: numeral_eq_Suc intro!: step_turn)
  ultimately show ?thesis using d0(1) d2(2) by blast
qed

lemma sense_to_publish_runs:
  assumes "at_stage n SENSE_INIT t d" "unsampled (dev_ctx d)" "turn_env_ok env" "server_reply r"
  shows "\<exists>d'. run_events dev_step d (sense_to_publish env ne a r) d' \<and> at_stage n MQTT_PUBLISH t d' \<and>
    online (dev_ctx d') \<and> connected (dev_ctx d') \<and> capacitance (dev_ctx d') = 0 \<and> temperature (dev_ctx d') = 0"
proof -
  from turn_sense_init[OF assms(1,3)] obtain d3 c3 where
    d3: "loop_turn env d = Some (d3, c3)" "at_stage n NTP_SYNC t d3" "dev_ctx d3 = (dev_ctx d)\<lparr>sense_initd := True, loop_state := NTP_SYNC\<rparr>" by blast
  have "ntp_state (dev_ctx d3) = None" "\<not> ntp_syncd (dev_ctx d3)" using assms(2) by (simp_all add: d3(3) unsampled_def)
  from turn_ntp[OF d3(2) assms(3), of False] this obtain d4 c4 st4 where
    d4: "loop_turn env d3 = Some (d4, c4)" "at_stage n NTP_SYNC t d4"
    "dev_ctx d4 = (dev_ctx d3)\<lparr>ntp_state := Some st4, ntp_syncd := False, loop_state := NTP_SYNC\<rparr>" by auto
  have "ntp_state (dev_ctx d4) = Some st4" by (simp add: d4(3))
  from clock_set[OF d4(2) this assms(4), of ne a] obtain d5 st5 where
    d5: "run_events dev_step d4 (clock_events ne a r) d5" "at_stage n NTP_SYNC t d5" "synced st5"
    "dev_ctx d5 = (dev_ctx d4)\<lparr>ntp_state := Some st5\<rparr>" by blast
  have "ntp_state (dev_ctx d5) = Some st5" "\<not> ntp_syncd (dev_ctx d5)" by (simp_all add: d5(4) d4(3))
  from turn_ntp[OF d5(2) assms(3), of True] this d5(3) obtain d6 c6 st6 where
    d6: "loop_turn env d5 = Some (d6, c6)" "at_stage n MQTT_PUBLISH t d6"
    "dev_ctx d6 = (dev_ctx d5)\<lparr>ntp_state := Some st6, ntp_syncd := True, loop_state := MQTT_PUBLISH\<rparr>" by auto
  have r: "run_events dev_step d (replicate 2 (Turn env)) d4" "run_events dev_step d5 [Turn env] d6"
    using d3(1) d4(1) d6(1) by (auto simp: numeral_eq_Suc intro!: step_turn)
  have "run_events dev_step d (sense_to_publish env ne a r) d6"
    unfolding sense_to_publish_def by (rule run_events_append[OF r(1) run_events_append[OF d5(1) r(2)]])
  moreover have "online (dev_ctx d6)" "connected (dev_ctx d6)" "capacitance (dev_ctx d6) = 0" "temperature (dev_ctx d6) = 0"
    using d6(2) assms(2) by (simp_all add: online_def connected_def unsampled_def at_stage_def d6(3) d5(4) d4(3) d3(3))
  ultimately show ?thesis using d6(2) by blast
qed

text \<open>From the publish to the sampling state: three turns.\<close>

lemma publish_to_sample:
  assumes "at_stage n MQTT_PUBLISH t d" "turn_env_ok env" "connected (dev_ctx d)" "length t < 40"
  shows "\<exists>d1 calls m d'. loop_turn env d = Some (d1, calls) \<and> On_mqtt (Mqtt_publish TOPIC_BREADCRUMB m) \<in> set calls \<and>
    m @ ''}'' = breadcrumb_json (dev_mac (le_mqtt env)) t (capacitance (dev_ctx d)) (temperature (dev_ctx d)) \<and>
    run_events dev_step d1 (replicate 2 (Turn env)) d' \<and> at_stage n SENSE_LISTEN t d'"
proof -
  from turn_publish[OF assms] obtain d7 c7 m where
    d7: "loop_turn env d = Some (d7, c7)" "at_stage n MQTT_LISTEN t d7" "On_mqtt (Mqtt_publish TOPIC_BREADCRUMB m) \<in> set c7"
      "m @ ''}'' = breadcrumb_json (dev_mac (le_mqtt env)) t (capacitance (dev_ctx d)) (temperature (dev_ctx d))" by blast
  from turn_listen[OF d7(2)] obtain d8 c8 where d8: "loop_turn env d7 = Some (d8, c8)" "at_stage n BATT_LISTEN t d8" by blast
  from turn_listen[OF d8(2)] obtain d9 c9 where d9: "loop_turn env d8 = Some (d9, c9)" "at_stage n SENSE_LISTEN t d9" by blast
  have "run_events dev_step d7 (replicate 2 (Turn env)) d9"
    using d8(1) d9(1) by (auto simp: numeral_eq_Suc intro!: step_turn)
  with d7 d9(2) show ?thesis by blast
qed

section \<open>A way to the log dump\<close>

lemma sense_failures:
  assumes "at_stage n SENSE_INIT t d" "unsampled (dev_ctx d)" "n + k \<le> 9"
    and "i2c_init_baud (le_i2c bad 0) \<noteq> 100000" "log_env_ok (le_err_log bad)"
  shows "\<exists>d'. run_events dev_step d (replicate k (Turn bad)) d' \<and> at_stage (n + k) SENSE_INIT t d' \<and> unsampled (dev_ctx d')"
  using assms(1-3)
proof (induction k arbitrary: n d)
  case (Suc k)
  from turn_sense_fails[OF Suc.prems(1) _ _ assms(4,5)] Suc.prems(2,3) obtain d1 calls slots where
    d1: "loop_turn bad d = Some (d1, calls)" "at_stage (Suc n) SENSE_INIT t d1" "dev_ctx d1 = (dev_ctx d)\<lparr>logdump := slots\<rparr>"
    by (auto simp: unsampled_def)
  have "unsampled (dev_ctx d1)" using Suc.prems(2) by (simp add: unsampled_def connected_def d1(3))
  from Suc.IH[OF d1(2) this] Suc.prems(3) run_turn[OF d1(1)] show ?case by fastforce
qed auto

lemma logdump_reached:
  fixes bad :: loop_env
  assumes "start_ok senv" "turn_env_ok env" "server_reply r" "store_rep fl m"
    and "map_of m ''ssid'' = Some s" "map_of m ''password'' = Some p" "map_of m ''contract'' = Some t"
    and "cred_value s" "cred_value p" "cred_value t" "length t < 40"
    and "i2c_init_baud (le_i2c bad 0) \<noteq> 100000" "log_env_ok (le_err_log bad)"
    and "mqtt_env_ok (le_mqtt bad)" "payload_malloc (le_mqtt bad)" "\<forall>t m. publish_err (le_mqtt bad) t m \<noteq> ERR_OK"
  shows "\<exists>d0 evs d. main_start senv fl = Some (Inr d0) \<and> run_events dev_step d0 evs d \<and> loop_state (dev_ctx d) = LOGDUMP"
proof -
  from start_to_sense[OF assms(1,2,4-11)] obtain d0 d1 where
    1: "main_start senv fl = Some (Inr d0)" "run_events dev_step d0 (replicate 2 (Turn env)) d1"
      "at_stage 4 SENSE_INIT t d1" "unsampled (dev_ctx d1)" by blast
  from sense_failures[OF 1(3,4) _ assms(12,13), of 5] obtain d2 where
    2: "run_events dev_step d1 (replicate 5 (Turn bad)) d2" "at_stage 9 SENSE_INIT t d2" "unsampled (dev_ctx d2)" by auto
  from sense_to_publish_runs[OF 2(2,3) assms(2,3)] obtain ne a d3 where
    3: "run_events dev_step d2 (sense_to_publish env ne a r) d3" "at_stage 9 MQTT_PUBLISH t d3" "online (dev_ctx d3)" "connected (dev_ctx d3)"
    by blast
  from turn_publish_fails[OF 3(2,4,3) assms(11,14-16,13)] obtain d calls where
    4: "loop_turn bad d3 = Some (d, calls)" "loop_state (dev_ctx d) = LOGDUMP" by blast
  have "run_events dev_step d3 [Turn bad] d" using step_turn[OF 4(1)] by simp
  from run_events_append[OF 1(2) run_events_append[OF 2(1) run_events_append[OF 3(1) this]]] 1(1) 4(2)
  show ?thesis by blast
qed

end
