(* ===== verification/Safety.thy ===== *)
theory Safety
  imports First_Cycle
begin

text \<open>
  Defined behaviour up to the first sample or log dump. The invariant \<open>calm\<close> strengthens that of
  \<open>Main_Loop\<close> by what the handlers need: the credentials of the context are terminated,
  storable and short enough for the messages, the flash sector is erased before the first turn
  and correctly saved from then on, and a broker connection that is marked as made exists. Every
  handler but the sampling, which returns no value, and the log dump completes in a calm state and
  leaves one (\<open>runs\<close>), whatever network, sensor and clock do, and so does every callback. The
  device address has to contain a zero byte: without one, connecting is undefined.
\<close>

section \<open>Logging never fails\<close>

lemma dlog_total:
  assumes "is_cstring m"
  shows "\<exists>e slots dump h'. dlog env c h lvl m = Some (e, c\<lparr>logdump := slots, dump_logs := dump\<rparr>, h')"
proof (cases "log_calloc env")
  case False
  then show ?thesis
    by (intro exI[of _ DT_ERR_MALLOC] exI[of _ "logdump c"] exI[of _ "dump_logs c"] exI[of _ h]) (cases c, simp add: dlog_def)
next
  case True
  obtain b where b: "log_format (log_now_ms env) lvl m = Some b" "c_str b \<noteq> None"
    using log_format_text[OF assms] log_format_cstr(1)[OF assms] by blast
  have "dlog env c h lvl m \<noteq> None"
    using True b by (auto simp: dlog_def heap_alloc_def heap_free_def split: option.splits prod.splits)
  then obtain e c' h' where d: "dlog env c h lvl m = Some (e, c', h')" by (metis not_Some_eq prod.exhaust)
  from dlog_frame[OF d] d show ?thesis by blast
qed

section \<open>What a good run keeps\<close>

definition creds_fine :: "app_ctx \<Rightarrow> bool" where
  "creds_fine c \<longleftrightarrow> (\<exists>s p t. has_creds c s p t \<and> cred_value s \<and> cred_value p \<and> cred_value t \<and> length t < 40)"

definition saved :: "string \<Rightarrow> bool" where
  "saved fl \<longleftrightarrow> (\<exists>m. store_rep fl m \<and> cred_store m \<and> (\<forall>t. map_of m ''contract'' = Some t \<longrightarrow> length t < 40))"

definition good_sector :: "string \<Rightarrow> bool" where
  "good_sector fl \<longleftrightarrow> saved fl \<or> fl = replicate NVS_SIZE (CHR 0xFF)"

text \<open>A broker connection that is marked as made exists; the stages before it have none.\<close>

definition client_fine :: "loop_state set \<Rightarrow> app_ctx \<Rightarrow> bool" where
  "client_fine before c \<longleftrightarrow> (mqtt_initd c \<longrightarrow> connected c) \<and> (loop_state c \<in> before \<longrightarrow> \<not> mqtt_initd c)"

abbreviation offline_states :: "loop_state set" where
  "offline_states \<equiv> {FLASH_INIT, WIFI_CONFIG, FLASH_WRITE}"

definition calm :: "device \<Rightarrow> bool" where
  "calm d \<longleftrightarrow> dev_inv d \<and> creds_fine (dev_ctx d) \<and> client_fine (insert MQTT_INIT offline_states) (dev_ctx d) \<and>
     (if loop_state (dev_ctx d) = FLASH_INIT then good_sector (dev_flash d) else saved (dev_flash d))"

lemma creds_fine_cong:
  "creds_fine c \<Longrightarrow> wifi_ssid c' = wifi_ssid c \<Longrightarrow> wifi_pass c' = wifi_pass c \<Longrightarrow> prv_token c' = prv_token c \<Longrightarrow> creds_fine c'"
  by (simp add: creds_fine_def has_creds_def)

lemma client_fine_cong:
  "client_fine S c \<Longrightarrow> mqtt_initd c' = mqtt_initd c \<Longrightarrow> mqtt_client c' = mqtt_client c \<Longrightarrow> loop_state c' = loop_state c \<Longrightarrow>
   client_fine S c'"
  by (simp add: client_fine_def connected_def)

lemma client_fine_mono: "client_fine S c \<Longrightarrow> S' \<subseteq> S \<Longrightarrow> client_fine S' c"
  by (auto simp: client_fine_def)

section \<open>The flash handlers\<close>

text \<open>Reading one credential into its field, whether it is stored or not.\<close>

lemma read_cred:
  assumes "store_rep fl m" "cred_store m" "flash_dev_ok dev" "k \<in> set cred_keys" "length b = 64" "c_str b = Some v" "cred_value v"
  shows "\<exists>e b' v'. read_val dev k b fl = Some (e, b') \<and> c_str b' = Some v' \<and> cred_value v' \<and> (v' = v \<or> map_of m k = Some v')"
proof (cases "map_of m k")
  case None
  have "key_visible k m"
    using assms(2,4) suffix_cred_keys unfolding key_visible_def cred_store_def by blast
  with flash.fetch_missing[OF assms(1,3) None] valid_cred_key[OF assms(4)] assms(6,7) show ?thesis by blast
next
  case (Some w)
  have w: "cred_value w" using assms(2) map_of_SomeD[OF Some] by (auto simp: cred_store_def)
  then have "fits_buffer b w" using assms(5) by (simp add: fits_buffer_def cred_value_def)
  from flash.fetch_found[OF assms(1,3) Some this] w Some show ?thesis by (auto simp: holds_string_def)
qed

lemma flash_init_calm:
  assumes "good_sector fl" "\<And>i. flash_dev_ok (dev i)" "creds_fine ctx" "ctx_wf ctx"
  shows "\<exists>e c fl'. flash_init_handler dev ctx fl = Some (e, c, fl') \<and> saved fl' \<and> creds_fine c \<and>
    mqtt_initd c = mqtt_initd ctx \<and> mqtt_client c = mqtt_client ctx"
proof (cases "saved fl")
  case False
  then have "fl = replicate NVS_SIZE (CHR 0xFF)" using assms(1) by (simp add: good_sector_def)
  moreover have "saved (replicate NVS_SIZE NUL)"
    unfolding saved_def by (intro exI[of _ "[]"])
      (simp add: cred_store_Nil store_rep_def items_wf_def suffix_free_def render_def NVS_SIZE_def replicate_numeral)
  moreover have "creds_fine (ctx\<lparr>flash_initd := True\<rparr>)" by (rule creds_fine_cong[OF assms(3)]) simp_all
  ultimately show ?thesis using flash_init_blank[OF assms(2), where ctx = ctx] by simp
next
  case True
  then obtain m where m: "store_rep fl m" "cred_store m" "\<And>t. map_of m ''contract'' = Some t \<Longrightarrow> length t < 40"
    by (auto simp: saved_def)
  from assms(3) obtain s p t where c: "c_str (wifi_ssid ctx) = Some s" "c_str (wifi_pass ctx) = Some p"
    "c_str (prv_token ctx) = Some t" and v: "cred_value s" "cred_value p" "cred_value t" "length t < 40"
    by (auto simp: creds_fine_def has_creds_def)
  have l: "length (wifi_ssid ctx) = 64" "length (wifi_pass ctx) = 64" "length (prv_token ctx) = 64"
    using assms(4) by (simp_all add: ctx_wf_def)
  from read_cred[OF m(1,2) assms(2) in_cred_keys(1) l(1) c(1) v(1), of 1] obtain e1 b1 s' where
    r1: "read_val (dev 1) ''ssid'' (wifi_ssid ctx) fl = Some (e1, b1)" "c_str b1 = Some s'" "cred_value s'" by blast
  from read_cred[OF m(1,2) assms(2) in_cred_keys(2) l(2) c(2) v(2), of 2] obtain e2 b2 p' where
    r2: "read_val (dev 2) ''password'' (wifi_pass ctx) fl = Some (e2, b2)" "c_str b2 = Some p'" "cred_value p'" by blast
  from read_cred[OF m(1,2) assms(2) in_cred_keys(3) l(3) c(3) v(3), of 3] m(3) v(4) obtain e3 b3 t' where
    r3: "read_val (dev 3) ''contract'' (prv_token ctx) fl = Some (e3, b3)" "c_str b3 = Some t'" "cred_value t'" "length t' < 40"
    by blast
  show ?thesis
    using store_rep_initialized[OF m(1), of "dev 0"] True r1 r2 r3 c v
    by (auto simp: flash_init_handler_def creds_fine_def has_creds_def Let_def)
qed

section \<open>The handlers of the broker connection\<close>

lemma creds_token: "creds_fine c \<Longrightarrow> \<exists>t. c_str (prv_token c) = Some t \<and> length t < 40"
  by (auto simp: creds_fine_def has_creds_def)

lemma log_return_total:
  assumes "is_cstring m"
  shows "\<exists>slots dump h'. log_return lenv c h m r calls = Some (r, c\<lparr>logdump := slots, dump_logs := dump\<rparr>, h', calls)"
proof -
  from dlog_total[OF assms, of lenv c h LOG_INFO] obtain e slots dump h' where
    "dlog lenv c h LOG_INFO m = Some (e, c\<lparr>logdump := slots, dump_logs := dump\<rparr>, h')" by blast
  then have "log_return lenv c h m r calls = Some (r, c\<lparr>logdump := slots, dump_logs := dump\<rparr>, h', calls)"
    by (simp add: log_return_def)
  then show ?thesis by blast
qed

lemma provision_total:
  assumes "mqtt_env_ok env" "creds_fine c" "mqtt_client c = Some st" "lwip_client st"
  shows "\<exists>e calls. provision env c = Some (e, calls)"
proof -
  obtain t where t: "c_str (prv_token c) = Some t" "length t < 40" using creds_token[OF assms(2)] by blast
  show ?thesis
  proof (cases "payload_malloc env")
    case True
    from provision_sends[OF assms(1) True t(1) _ assms(3,4)] t(2) show ?thesis by (simp add: Let_def)
  qed (simp add: provision_def t(1))
qed

lemma breadcrumb_total:
  assumes "mqtt_env_ok env" "creds_fine c" "mqtt_client c = Some st" "lwip_client st"
  shows "\<exists>e calls. breadcrumb env c = Some (e, calls)"
proof -
  obtain t where t: "c_str (prv_token c) = Some t" "length t < 40" using creds_token[OF assms(2)] by blast
  then have l: "length (breadcrumb_body (dev_mac env) t (capacitance c) (temperature c)) < 128"
    using length_dec_u16[of "capacitance c"] length_dec_u16[of "temperature c"] by (simp add: breadcrumb_body_length)
  show ?thesis
  proof (cases "payload_malloc env")
    case True
    from breadcrumb_sends[OF assms(1) True t(1) assms(3,4)] l show ?thesis by (simp add: Let_def)
  qed (simp add: breadcrumb_def t(1) Let_def)
qed

text \<open>A handler of the connection keeps the credentials; a connection it reports exists.\<close>

definition connects :: "(int \<times> app_ctx \<times> heap \<times> mqtt_call list) option \<Rightarrow> bool" where
  "connects r \<longleftrightarrow> (\<exists>e c h calls. r = Some (e, c, h, calls) \<and> creds_fine c \<and> (mqtt_initd c \<longrightarrow> connected c))"

lemma connects_log_return:
  assumes "is_cstring m" "creds_fine c" "\<not> mqtt_initd c"
  shows "connects (log_return lenv c h m r calls)"
proof -
  from log_return_total[OF assms(1), of lenv c h r calls] obtain slots dump h' where
    "log_return lenv c h m r calls = Some (r, c\<lparr>logdump := slots, dump_logs := dump\<rparr>, h', calls)" by blast
  moreover have "creds_fine (c\<lparr>logdump := slots, dump_logs := dump\<rparr>)" by (rule creds_fine_cong[OF assms(2)]) simp_all
  ultimately show ?thesis using assms(3) by (simp add: connects_def)
qed

lemma connects_finish:
  assumes "mqtt_env_ok env" "creds_fine c" "prv_token c \<noteq> []" "\<not> mqtt_initd c" "mqtt_client c = Some st" "lwip_client st"
  shows "connects (mqtt_init_finish env c h calls)"
proof -
  obtain t0 where t0: "rd (prv_token c) 0 = Some t0" using assms(3) by (simp add: rd_def)
  obtain e calls' where p: "(if t0 \<noteq> NUL then provision env c else Some (DT_ERR_OK, [])) = Some (e, calls')"
    using provision_total[OF assms(1,2,5,6)] by (cases "t0 \<noteq> NUL") auto
  have ok: "creds_fine (c\<lparr>mqtt_initd := True\<rparr>)" by (rule creds_fine_cong[OF assms(2)]) simp_all
  have "mqtt_init_finish env c h calls =
    (if e \<noteq> DT_ERR_OK then log_return (conn_log env 2) c h (''Failed to provision device'' @ [NL]) (err_code e) (calls @ calls')
     else Some (0, c\<lparr>mqtt_initd := True\<rparr>, h, calls @ calls'))"
    by (simp add: mqtt_init_finish_def t0 p)
  moreover have "connects (log_return (conn_log env 2) c h (''Failed to provision device'' @ [NL]) (err_code e) (calls @ calls'))"
    by (rule connects_log_return[OF _ assms(2,4)]) simp
  ultimately show ?thesis using ok assms(5,6) by (simp add: connects_def connected_def)
qed

text \<open>With Wi-Fi up the handler comes to the broker address, having logged two lines.\<close>

abbreviation new_client :: "u32 \<Rightarrow> bool \<Rightarrow> mqtt_client_t" where
  "new_client a l \<equiv> \<lparr>remote_addr = a, lwip_client = l, received = 0, counter = 0, reconnect = 0\<rparr>"

definition connect_tail ::
  "mqtt_env \<Rightarrow> string \<Rightarrow> app_ctx \<Rightarrow> heap \<Rightarrow> (int \<times> app_ctx \<times> heap \<times> mqtt_call list) option" where
  "connect_tail env hub c h =
    (case ip4addr_aton env hub of
       None \<Rightarrow> log_return (conn_log env 2) (c\<lparr>mqtt_client := Some (new_client 0 False)\<rparr>) h
                 (''Invalid IP String '' @ hub @ '', exiting'' @ [NL]) 1 []
     | Some a \<Rightarrow>
         (let st = new_client a (client_new env); c' = c\<lparr>mqtt_client := Some st\<rparr>
          in if \<not> client_new env
             then log_return (conn_log env 2) c' h (''Failed to create MQTT client'' @ [NL]) 1 []
             else do {
               (err, calls) \<leftarrow> mqtt_connect env st;
               mqtt_init_finish env c' h (if err = DT_ERR_OK then calls @ [Mqtt_set_inpub] else calls)
             }))"

lemma mqtt_init_to_connect:
  assumes "wifi_configd ctx" "c_str (wifi_ssid ctx) = Some s" "c_str (wifi_pass ctx) = Some p" "wifi_connect env s p = 0"
    and "client_calloc env" "c_str (hub_loc ctx) = Some hub"
  shows "\<exists>l dump h2. mqtt_init_handler env ctx h = connect_tail env hub (ctx\<lparr>logdump := l, dump_logs := dump\<rparr>) h2"
proof -
  let ?up = "\<lambda>l d. ctx\<lparr>logdump := l, dump_logs := d\<rparr>"
  have "is_cstring (''connecting to '' @ s @ [NL])" using c_str_Some[OF assms(2)] by simp
  from dlog_total[OF this, of "conn_log env 0" ctx h LOG_INFO] obtain e1 l1 d1 h1 where
    1: "dlog (conn_log env 0) ctx h LOG_INFO (''connecting to '' @ s @ [NL]) = Some (e1, ?up l1 d1, h1)" by blast
  have "is_cstring (''Connected.'' @ [NL])" by simp
  from dlog_total[OF this, of "conn_log env 1" "?up l1 d1" h1 LOG_INFO] obtain e2 l2 d2 h2 where
    2: "dlog (conn_log env 1) (?up l1 d1) h1 LOG_INFO (''Connected.'' @ [NL]) = Some (e2, ?up l2 d2, h2)" by auto
  show ?thesis
    using assms 1 2
    by (intro exI[of _ l2] exI[of _ d2] exI[of _ h2])
       (auto simp: mqtt_init_handler_def mqtt_client_init_def connect_tail_def Let_def split: option.splits)
qed

lemma mqtt_init_connects_or_fails:
  assumes "mqtt_env_ok env" "client_calloc env" "creds_fine ctx" "ctx_wf ctx" "\<not> mqtt_initd ctx" "0 \<in> set (dev_mac env)"
  shows "connects (mqtt_init_handler env ctx h)"
proof -
  from assms(3) obtain s p where c: "c_str (wifi_ssid ctx) = Some s" "c_str (wifi_pass ctx) = Some p"
    by (auto simp: creds_fine_def has_creds_def)
  obtain hub where hub: "c_str (hub_loc ctx) = Some hub" using assms(4) c_str_None_iff[of "hub_loc ctx"] by (cases "c_str (hub_loc ctx)") (auto simp: ctx_wf_def)
  let ?up = "\<lambda>l d. ctx\<lparr>logdump := l, dump_logs := d\<rparr>"
  have f: "creds_fine (?up l d)" "creds_fine (?up l d\<lparr>mqtt_client := cl\<rparr>)" "\<not> mqtt_initd (?up l d)"
    "\<not> mqtt_initd (?up l d\<lparr>mqtt_client := cl\<rparr>)" for l d cl
    using assms(5) creds_fine_cong[OF assms(3)] by simp_all
  note fails = connects_log_return[OF _ f(1,3)] connects_log_return[OF _ f(2,4)]
  show ?thesis
  proof (cases "wifi_configd ctx \<and> wifi_connect env s p = 0")
    case False
    have "is_cstring (''connecting to '' @ s @ [NL])" using c_str_Some[OF c(1)] by simp
    from dlog_total[OF this, of "conn_log env 0" ctx h LOG_INFO] obtain e1 l1 d1 h1 where
      "dlog (conn_log env 0) ctx h LOG_INFO (''connecting to '' @ s @ [NL]) = Some (e1, ?up l1 d1, h1)" by blast
    then show ?thesis using False c connects_log_return[OF _ assms(3,5)] fails by (auto simp: mqtt_init_handler_def)
  next
    case True
    then obtain l d h2 where r: "mqtt_init_handler env ctx h = connect_tail env hub (?up l d) h2"
      using mqtt_init_to_connect[OF _ c _ assms(2) hub, of h] by blast
    have m: "is_cstring (''Invalid IP String '' @ hub @ '', exiting'' @ [NL])" using c_str_Some[OF hub] by simp
    show ?thesis
    proof (cases "ip4addr_aton env hub")
      case None
      then show ?thesis using r fails(2)[OF m] by (simp add: connect_tail_def)
    next
      case (Some a)
      let ?st = "new_client a (client_new env)"
      obtain e calls where k: "mqtt_connect env ?st = Some (e, calls)"
        using mqtt_connect_defined[OF assms(6)] by blast
      have "connects (mqtt_init_finish env (?up l d\<lparr>mqtt_client := Some ?st\<rparr>) h2 cs)" if "client_new env" for cs
        by (rule connects_finish[OF assms(1) f(2) _ f(4), where st = ?st]) (use that assms(4) in \<open>auto simp: ctx_wf_def\<close>)
      then show ?thesis using r Some k fails(2) by (cases "client_new env") (simp_all add: connect_tail_def Let_def)
    qed
  qed
qed

section \<open>One turn\<close>

text \<open>
  The allocations of a turn succeed, those of the log included, flash, bus and address register
  behave as documented, and the address has a zero byte; network and sensor may fail in any way.
\<close>

definition allocs_ok :: "loop_env \<Rightarrow> bool" where
  "allocs_ok env \<longleftrightarrow> (\<forall>i. flash_dev_ok (le_flash env i)) \<and> dhcp_calloc (le_ap env) \<and> mqtt_env_ok (le_mqtt env) \<and>
     0 \<in> set (dev_mac (le_mqtt env)) \<and> client_calloc (le_mqtt env) \<and> (\<forall>i. i2c_env_ok (le_i2c env i)) \<and>
     (\<forall>i. log_calloc (conn_log (le_mqtt env) i)) \<and> log_calloc (le_ntp_log env) \<and> log_calloc (le_err_log env) \<and>
     log_calloc (le_update_log env)"

definition after_handler :: "device \<Rightarrow> bool" where
  "after_handler d \<longleftrightarrow> creds_fine (dev_ctx d) \<and> client_fine offline_states (dev_ctx d) \<and> saved (dev_flash d)"

lemma after_handlerI:
  assumes "calm d" "loop_state (dev_ctx d) \<noteq> FLASH_INIT" "dev_flash d' = dev_flash d"
    and "wifi_ssid (dev_ctx d') = wifi_ssid (dev_ctx d)" "wifi_pass (dev_ctx d') = wifi_pass (dev_ctx d)"
    and "prv_token (dev_ctx d') = prv_token (dev_ctx d)" "mqtt_initd (dev_ctx d') = mqtt_initd (dev_ctx d)"
    and "mqtt_client (dev_ctx d') = mqtt_client (dev_ctx d)" "loop_state (dev_ctx d') = loop_state (dev_ctx d)"
  shows "after_handler d'"
proof -
  have "creds_fine (dev_ctx d)" "client_fine offline_states (dev_ctx d)" "saved (dev_flash d)"
    using assms(1,2) client_fine_mono[of "insert MQTT_INIT offline_states" "dev_ctx d" offline_states] by (auto simp: calm_def)
  then show ?thesis
    using assms(3-9) creds_fine_cong[of "dev_ctx d" "dev_ctx d'"] client_fine_cong[of offline_states "dev_ctx d" "dev_ctx d'"]
    by (simp add: after_handler_def)
qed

text \<open>Each state's handler, away from the sampling and the log dump.\<close>

abbreviation runs :: "loop_env \<Rightarrow> device \<Rightarrow> bool" where
  "runs env d \<equiv> \<exists>e d1 calls. run_handler env d = Some (e, d1, calls) \<and> after_handler d1"

lemma runs_flash_init:
  assumes "calm d" "allocs_ok env" "loop_state (dev_ctx d) = FLASH_INIT" shows "runs env d"
proof -
  have d: "good_sector (dev_flash d)" "creds_fine (dev_ctx d)" "ctx_wf (dev_ctx d)" "\<not> mqtt_initd (dev_ctx d)"
    using assms(1,3) by (simp_all add: calm_def dev_inv_def client_fine_def)
  have "\<And>i. flash_dev_ok (le_flash env i)" using assms(2) by (simp add: allocs_ok_def)
  from flash_init_calm[where dev = "le_flash env", OF d(1) this d(2,3)] obtain e c fl' where
    "flash_init_handler (le_flash env) (dev_ctx d) (dev_flash d) = Some (e, c, fl')" "saved fl'" "creds_fine c"
    "mqtt_initd c = mqtt_initd (dev_ctx d)" by blast
  then show ?thesis using assms(3) d(4) by (simp add: run_handler_def after_handler_def client_fine_def)
qed

lemma runs_flash_write:
  assumes "calm d" "allocs_ok env" "loop_state (dev_ctx d) = FLASH_WRITE" shows "runs env d"
proof -
  have d: "saved (dev_flash d)" "creds_fine (dev_ctx d)" "\<not> mqtt_initd (dev_ctx d)"
    using assms(1,3) by (simp_all add: calm_def client_fine_def)
  from d(1) obtain m where m: "store_rep (dev_flash d) m" "cred_store m" by (auto simp: saved_def)
  from d(2) obtain s p t where c: "has_creds (dev_ctx d) s p t" "cred_value s" "cred_value p" "cred_value t" "length t < 40"
    by (auto simp: creds_fine_def)
  have "\<And>i. flash_dev_ok (le_flash env i)" using assms(2) by (simp add: allocs_ok_def)
  from flash_write_handler_saves[where dev = "le_flash env", OF m(1) this m(2) c(1-4)] obtain fl' where
    w: "flash_write_handler (le_flash env) (dev_ctx d) (dev_flash d) = Some (DT_ERR_OK, (dev_ctx d)\<lparr>flash_written := True\<rparr>, fl')"
    "store_rep fl' (save_creds s p t m)" by blast
  have "saved fl'"
    unfolding saved_def using w(2) cred_store_save[OF m(2) c(2-4)] save_creds_lookup(3) c(5) by fastforce
  moreover have "creds_fine ((dev_ctx d)\<lparr>flash_written := True\<rparr>)" by (rule creds_fine_cong[OF d(2)]) simp_all
  ultimately show ?thesis using w(1) assms(3) d(3) by (simp add: run_handler_def after_handler_def client_fine_def)
qed

lemma runs_wifi_config:
  assumes "calm d" "allocs_ok env" "loop_state (dev_ctx d) = WIFI_CONFIG" shows "runs env d"
proof -
  have "wifi_config_handler (le_ap env) (dev_host d) \<noteq> None"
    using assms(2) by (auto simp: wifi_config_handler_def host_provisioning_ap_def allocs_ok_def Let_def split: prod.splits)
  then obtain e hs calls where "wifi_config_handler (le_ap env) (dev_host d) = Some (e, hs, calls)" by (metis not_Some_eq prod.exhaust)
  then have "run_handler env d = Some (err_code e, d\<lparr>dev_host := hs\<rparr>, map On_tcp calls)" using assms(3) by (simp add: run_handler_def)
  moreover have "after_handler (d\<lparr>dev_host := hs\<rparr>)" by (rule after_handlerI[OF assms(1)]) (use assms(3) in simp_all)
  ultimately show ?thesis by blast
qed

lemma runs_mqtt_init:
  assumes "calm d" "allocs_ok env" "loop_state (dev_ctx d) = MQTT_INIT" shows "runs env d"
proof -
  have d: "saved (dev_flash d)" "creds_fine (dev_ctx d)" "\<not> mqtt_initd (dev_ctx d)" "ctx_wf (dev_ctx d)"
    using assms(1,3) by (simp_all add: calm_def client_fine_def dev_inv_def)
  have env: "mqtt_env_ok (le_mqtt env)" "client_calloc (le_mqtt env)" "0 \<in> set (dev_mac (le_mqtt env))"
    using assms(2) by (simp_all add: allocs_ok_def)
  from mqtt_init_connects_or_fails[OF env(1,2) d(2,4,3) env(3), of "dev_heap d"] obtain e c h calls where
    m: "mqtt_init_handler (le_mqtt env) (dev_ctx d) (dev_heap d) = Some (e, c, h, calls)" "creds_fine c"
      "mqtt_initd c \<longrightarrow> connected c" by (auto simp: connects_def)
  have "loop_state c = MQTT_INIT" using mqtt_init_grows[OF m(1)] assms(3) by (simp add: grows_def flags_grow_def)
  with m d(1) assms(3) show ?thesis by (simp add: run_handler_def after_handler_def client_fine_def)
qed

lemma runs_publish:
  assumes "calm d" "allocs_ok env" "loop_state (dev_ctx d) = MQTT_PUBLISH" shows "runs env d"
proof -
  have d: "mqtt_initd (dev_ctx d)" "creds_fine (dev_ctx d)" "client_fine (insert MQTT_INIT offline_states) (dev_ctx d)"
    using assms(1,3) by (simp_all add: calm_def dev_inv_def stage_inv_def)
  then obtain st where st: "mqtt_client (dev_ctx d) = Some st" "lwip_client st" by (auto simp: client_fine_def connected_def)
  have "mqtt_env_ok (le_mqtt env)" using assms(2) by (simp add: allocs_ok_def)
  from breadcrumb_total[OF this d(2) st] obtain e calls where "breadcrumb (le_mqtt env) (dev_ctx d) = Some (e, calls)" by blast
  then have "run_handler env d = Some (err_code e, d, map On_mqtt calls)"
    using assms(3) by (simp add: run_handler_def mqtt_publish_handler_def)
  moreover have "after_handler d" by (rule after_handlerI[OF assms(1)]) (use assms(3) in simp_all)
  ultimately show ?thesis by blast
qed

lemma runs_same:
  assumes "calm d" "loop_state (dev_ctx d) \<noteq> FLASH_INIT" "run_handler env d = Some (e, d\<lparr>dev_ctx := c\<rparr>, calls)"
    and "wifi_ssid c = wifi_ssid (dev_ctx d)" "wifi_pass c = wifi_pass (dev_ctx d)" "prv_token c = prv_token (dev_ctx d)"
    and "mqtt_initd c = mqtt_initd (dev_ctx d)" "mqtt_client c = mqtt_client (dev_ctx d)" "loop_state c = loop_state (dev_ctx d)"
  shows "runs env d"
  using assms(3) after_handlerI[OF assms(1,2), of "d\<lparr>dev_ctx := c\<rparr>"] assms(4-9) by auto

lemma runs_sense_init:
  assumes "calm d" "loop_state (dev_ctx d) = SENSE_INIT" shows "runs env d"
proof -
  obtain r c where s: "sense_init_handler (le_i2c env 0) (dev_ctx d) = (r, c)" by (metis prod.exhaust)
  then have "run_handler env d = Some (r, d\<lparr>dev_ctx := c\<rparr>, [])" using assms(2) by (simp add: run_handler_def)
  moreover have "c = dev_ctx d \<or> c = (dev_ctx d)\<lparr>sense_initd := True\<rparr>"
    using s by (auto simp: sense_init_handler_def split: prod.splits if_splits)
  ultimately show ?thesis using runs_same[OF assms(1), of env r c "[]"] assms(2) by auto
qed

lemma runs_ntp:
  assumes "calm d" "loop_state (dev_ctx d) = NTP_SYNC" shows "runs env d"
proof -
  let ?c1 = "if ntp_state (dev_ctx d) = None then (dev_ctx d)\<lparr>ntp_state := ntp_init (le_ntp env)\<rparr> else dev_ctx d"
  have same: "wifi_ssid ?c1 = wifi_ssid (dev_ctx d)" "wifi_pass ?c1 = wifi_pass (dev_ctx d)" "prv_token ?c1 = prv_token (dev_ctx d)"
    "mqtt_initd ?c1 = mqtt_initd (dev_ctx d)" "mqtt_client ?c1 = mqtt_client (dev_ctx d)" "loop_state ?c1 = loop_state (dev_ctx d)"
    by simp_all
  show ?thesis
  proof (cases "ntp_state ?c1")
    case None
    have "is_cstring (''ntp_init failed'' @ [CHR 0x0A])" by simp
    from dlog_total[OF this, of "le_ntp_log env" ?c1 "dev_heap d" LOG_ERR] obtain e l b h where
      "dlog (le_ntp_log env) ?c1 (dev_heap d) LOG_ERR (''ntp_init failed'' @ [CHR 0x0A]) =
        Some (e, ?c1\<lparr>logdump := l, dump_logs := b\<rparr>, h)" by blast
    then have "run_handler env d = Some (err_code DT_ERR_MALLOC, d\<lparr>dev_ctx := ?c1\<lparr>logdump := l, dump_logs := b\<rparr>, dev_heap := h\<rparr>, [])"
      using None assms(2) by (simp add: run_handler_def ntp_sync_handler_def Let_def)
    moreover have "after_handler (d\<lparr>dev_ctx := ?c1\<lparr>logdump := l, dump_logs := b\<rparr>, dev_heap := h\<rparr>)"
      by (rule after_handlerI[OF assms(1)]) (use assms(2) in simp_all)
    ultimately show ?thesis by blast
  next
    case (Some st)
    obtain st' calls where p: "ntp_poll (le_ntp env) st = (st', calls)" by (metis prod.exhaust)
    let ?c2 = "if synced st' then ?c1\<lparr>ntp_state := Some st', ntp_syncd := True\<rparr> else ?c1\<lparr>ntp_state := Some st'\<rparr>"
    have "ntp_sync_handler (le_ntp env) (le_ntp_log env) (dev_ctx d) (dev_heap d) = Some (DT_ERR_OK, ?c2, dev_heap d, calls)"
      using Some p by (simp add: ntp_sync_handler_def Let_def)
    then have "run_handler env d = Some (0, d\<lparr>dev_ctx := ?c2\<rparr>, map On_ntp calls)"
      using assms(2) by (cases d) (simp add: run_handler_def)
    from runs_same[OF assms(1) _ this] assms(2) show ?thesis by simp
  qed
qed

lemma runs_any:
  assumes "calm d" "allocs_ok env" "loop_state (dev_ctx d) \<notin> {LOGDUMP, SENSE_LISTEN}" shows "runs env d"
proof -
  have n: "loop_state (dev_ctx d) \<noteq> LOOP_STATE_COUNT" using assms(1) by (simp add: calm_def dev_inv_def stage_inv_def)
  have self: "d\<lparr>dev_ctx := dev_ctx d\<rparr> = d" by (cases d) simp
  show ?thesis
  proof (cases "loop_state (dev_ctx d)")
    case MQTT_LISTEN
    then have "run_handler env d = Some (0, d\<lparr>dev_ctx := dev_ctx d\<rparr>, [])" by (simp add: run_handler_def mqtt_listen_handler_def)
    from runs_same[OF assms(1) _ this] MQTT_LISTEN show ?thesis by simp
  next
    case BATT_LISTEN
    then have "run_handler env d = Some (0, d\<lparr>dev_ctx := dev_ctx d\<rparr>, [])" by (simp add: run_handler_def batt_listen_handler_def self)
    from runs_same[OF assms(1) _ this] BATT_LISTEN show ?thesis by simp
  next
    case THROTTLE
    then have "run_handler env d = Some (0, d\<lparr>dev_ctx := dev_ctx d\<rparr>, [Sleep_ms 100])"
      by (simp add: run_handler_def throttle_listen_handler_def self)
    from runs_same[OF assms(1) _ this] THROTTLE show ?thesis by simp
  qed (use assms n runs_flash_init runs_wifi_config runs_flash_write runs_mqtt_init runs_sense_init runs_ntp runs_publish in blast)+
qed

text \<open>The rest of the turn: the error line, and the next state.\<close>

lemma after_log:
  assumes "after_handler d1" "log_handler_err lenv e d1 = Some d2" shows "after_handler d2"
proof (cases "e = 0")
  case False
  then obtain r c h where l: "dlog lenv (dev_ctx d1) (dev_heap d1) LOG_ERR (dec_int e @ [NL]) = Some (r, c, h)"
    "d2 = d1\<lparr>dev_ctx := c, dev_heap := h\<rparr>"
    using assms(2) by (auto simp: log_handler_err_def bind_eq_Some_conv)
  from dlog_frame[OF l(1)] obtain slots dump where c: "c = (dev_ctx d1)\<lparr>logdump := slots, dump_logs := dump\<rparr>" by blast
  show ?thesis
    using assms(1) creds_fine_cong[of "dev_ctx d1" c] client_fine_cong[of offline_states "dev_ctx d1" c] l(2) c
    by (simp add: after_handler_def)
qed (use assms in \<open>simp add: log_handler_err_def\<close>)

lemma log_handler_err_total: "log_handler_err lenv e d \<noteq> None"
proof -
  have "is_cstring (dec_int e @ [NL])" by (simp add: dec_int_cstring)
  from dlog_total[OF this, of lenv "dev_ctx d" "dev_heap d" LOG_ERR] show ?thesis by (auto simp: log_handler_err_def)
qed

lemma turn_defined:
  assumes "calm d" "allocs_ok env" "loop_state (dev_ctx d) \<notin> {LOGDUMP, SENSE_LISTEN}"
  shows "\<exists>d' calls. loop_turn env d = Some (d', calls)"
proof -
  from runs_any[OF assms] obtain e d1 c1 where r: "run_handler env d = Some (e, d1, c1)" by blast
  obtain d2 where l: "log_handler_err (le_err_log env) e d1 = Some d2"
    using log_handler_err_total by (metis not_Some_eq)
  have ok: "handler_ok d d2" using handler_ok_trans[OF run_handler_ok[OF r] log_handler_err_ok[OF l]] .
  then have "loop_state (dev_ctx d2) = loop_state (dev_ctx d)" by (simp add: handler_ok_def grows_def flags_grow_def)
  moreover have "loop_state (dev_ctx d) \<noteq> LOOP_STATE_COUNT" using assms(1) by (simp add: calm_def dev_inv_def stage_inv_def)
  ultimately have "update_state (le_update_log env) (dev_ctx d2) (dev_heap d2) \<noteq> None"
    using update_state_None_iff[of "dev_ctx d2"] assms(3) by simp
  then show ?thesis using r l by (auto simp: loop_turn_def basicio_init_handler_def)
qed

section \<open>Every event of a good run\<close>

text \<open>A provisioning request with credentials the store and the messages have room for.\<close>

definition good_request :: "tcp_pbuf \<Rightarrow> bool" where
  "good_request q \<longleftrightarrow> (\<exists>hs s w t. is_request q hs (provision_body s w t) \<and> length t < 40 \<and>
     (\<forall>v \<in> {s, w, t}. http_value v \<and> cred_value v))"

fun benign :: "dev_event \<Rightarrow> bool" where
  "benign (Turn env) = allocs_ok env"
| "benign (Http env ops con pcb p) = (tcp_env_ok env \<and> pbuf_ops_ok ops \<and>
     (\<exists>c. con = Some c \<and> conn_inv c \<and> con_pcb c = pcb \<and>
        (\<forall>q. p = Some q \<longrightarrow> is_provision_post (header_of c q) = Some False \<or> good_request q)))"
| "benign ev = True"

lemma cred_value_length: "cred_value v \<Longrightarrow> length v < 64"
  using esc_counts_length[of v] by (simp add: cred_value_def)

lemma http_calm:
  assumes "benign (Http env ops con pcb p)" "ctx_wf ctx"
  shows "\<exists>e ctx' con' calls. tcp_server_recv env ops ctx con pcb p = Some (e, ctx', con', calls) \<and> (ctx' = ctx \<or> creds_fine ctx')"
proof -
  from assms(1) obtain c where c: "tcp_env_ok env" "pbuf_ops_ok ops" "con = Some c" "conn_inv c" "con_pcb c = pcb"
    "\<And>q. p = Some q \<Longrightarrow> is_provision_post (header_of c q) = Some False \<or> good_request q" by auto
  show ?thesis
  proof (cases p)
    case None
    then show ?thesis using c by (simp add: tcp_server_recv_def tcp_close_client_connection_def)
  next
    case (Some q)
    consider "tot_bytes q = []" | "tot_bytes q \<noteq> []" "is_provision_post (header_of c q) = Some False" | "good_request q"
      using c(6)[OF Some] by blast
    then show ?thesis
    proof cases
      case 1
      then show ?thesis using c Some by (simp add: tcp_server_recv_def)
    next
      case 2
      from recv_other[OF c(2,4,5) this] c(3) Some show ?thesis by simp
    next
      case 3
      then obtain hs s w t where q: "is_request q hs (provision_body s w t)" "length t < 40"
        and v: "http_value s" "http_value w" "http_value t" "cred_value s" "cred_value w" "cred_value t"
        unfolding good_request_def by blast
      note len = v(4-6)[THEN cred_value_length]
      have f: "length (wifi_ssid ctx) = 64" "length (wifi_pass ctx) = 64" "length (prv_token ctx) = 64"
        using assms(2) by (simp_all add: ctx_wf_def)
      have cs: "is_cstring s" "is_cstring w" "is_cstring t" "DQ \<notin> set s" "DQ \<notin> set w" "DQ \<notin> set t"
        using v(1-3) by (simp_all add: http_value_def)
      obtain f1 f2 f3 where
        st: "store_field (wifi_ssid ctx) s = Some f1" "has_cstring f1 s" "store_field (wifi_pass ctx) w = Some f2" "has_cstring f2 w"
          "store_field (prv_token ctx) t = Some f3" "has_cstring f3 t"
        using store_field_holds[OF f(1) len(1) cs(1)] store_field_holds[OF f(2) len(2) cs(2)]
          store_field_holds[OF f(3) len(3) cs(3)] by blast
      let ?c = "ctx\<lparr>wifi_ssid := f1, wifi_pass := f2, prv_token := f3, wifi_configd := True\<rparr>"
      have "parse_wifi_credentials ctx json = Some (True, ?c)" if "c_str json = Some (provision_body s w t)" for json
        using parse_body[OF assms(2) cs(4-6) cs(1-3) that] len st by simp
      note r = recv_request[OF c(2,4,5,1) q(1) this]
      have "creds_fine ?c" using st v(4-6) q(2) by (auto simp: creds_fine_def has_creds_def has_cstring_def)
      then show ?thesis using r c(3) Some by (simp add: Let_def)
    qed
  qed
qed

lemma calm_same:
  assumes "calm d" "dev_inv d'" "dev_flash d' = dev_flash d" "creds_fine (dev_ctx d')"
    and "mqtt_initd (dev_ctx d') = mqtt_initd (dev_ctx d)" "connected (dev_ctx d) \<Longrightarrow> connected (dev_ctx d')"
    and "loop_state (dev_ctx d') = loop_state (dev_ctx d)"
  shows "calm d'"
  using assms by (auto simp: calm_def client_fine_def)

lemma calm_callback:
  assumes "calm d" "benign ev" "dev_step d ev d'" "\<forall>env. ev \<noteq> Turn env" shows "calm d'"
proof -
  have i: "dev_inv d" "ctx_wf (dev_ctx d)" "creds_fine (dev_ctx d)" using assms(1) by (simp_all add: calm_def dev_inv_def)
  note inv = dev_inv_step[OF i(1) assms(3)]
  from assms(3) show ?thesis
  proof cases
    case (step_http env ops con pcb p e ctx' con' calls)
    from http_calm[OF _ i(2), of env ops con pcb p] assms(2) step_http have "ctx' = dev_ctx d \<or> creds_fine ctx'" by auto
    moreover have "mqtt_initd ctx' = mqtt_initd (dev_ctx d) \<and> mqtt_client ctx' = mqtt_client (dev_ctx d) \<and>
        loop_state ctx' = loop_state (dev_ctx d)"
      using recv_ctx[of env ops "dev_ctx d" con pcb p e ctx' con' calls] step_http by (auto dest!: parse_frame)
    ultimately show ?thesis using i(3) step_http
      by (intro calm_same[OF assms(1) inv]) (auto simp: connected_def)
  next
    case step_timer
    then show ?thesis
      by (intro calm_same[OF assms(1) inv] creds_fine_cong[OF i(3)]) (auto simp: sample_rate_update_def connected_def split: if_splits)
  next
    case step_dhcp
    then show ?thesis by (intro calm_same[OF assms(1) inv] creds_fine_cong[OF i(3)]) simp_all
  next
    case step_ntp
    then show ?thesis by (intro calm_same[OF assms(1) inv] creds_fine_cong[OF i(3)]) (simp_all add: connected_def)
  next
    case step_published
    then show ?thesis
      by (intro calm_same[OF assms(1) inv] creds_fine_cong[OF i(3)]) (auto simp: connected_def mqtt_pub_request_cb_def)
  qed (use assms(4) in simp)
qed

lemma next_not_offline:
  assumes "client_fine offline_states c" "\<not> reset c" "next_state c \<in> insert MQTT_INIT offline_states"
  shows "\<not> mqtt_initd c"
  using assms by (cases "loop_state c") (auto simp: client_fine_def next_state_def successor_def split: if_splits)

lemma calm_turn:
  assumes "calm d" "allocs_ok env" "loop_turn env d = Some (d', calls)" shows "calm d'"
  using assms(3)
proof (rule loop_turn_parts)
  fix err d1 c1 d2
  assume r: "run_handler env d = Some (err, d1, c1)" and l: "log_handler_err (le_err_log env) err d1 = Some d2"
    and u: "update_state (le_update_log env) (dev_ctx d2) (dev_heap d2) = Some (dev_ctx d', dev_heap d')"
    and d': "d' = d2\<lparr>dev_ctx := dev_ctx d', dev_heap := dev_heap d'\<rparr>"
  have i: "dev_inv d" using assms(1) by (simp add: calm_def)
  have "after_handler d1"
  proof (cases "loop_state (dev_ctx d) = LOGDUMP")
    case True
    then obtain h where "d1 = d\<lparr>dev_heap := h\<rparr>" using r by (auto simp: run_handler_def bind_eq_Some_conv)
    then show ?thesis by (intro after_handlerI[OF assms(1)]) (use True in simp_all)
  next
    case False
    moreover have "loop_state (dev_ctx d) \<noteq> SENSE_LISTEN" using turn_sense_listen[of d env] assms(3) by auto
    ultimately show ?thesis using runs_any[OF assms(1,2)] r by auto
  qed
  then have a: "after_handler d2" by (rule after_log[OF _ l])
  have inv: "dev_inv d2" using dev_inv_handler[OF i handler_ok_trans[OF run_handler_ok[OF r] log_handler_err_ok[OF l]]] .
  then have n: "loop_state (dev_ctx d2) \<noteq> LOOP_STATE_COUNT" "\<not> reset (dev_ctx d2)" by (simp_all add: dev_inv_def stage_inv_def)
  let ?c = "dev_ctx d2"
  have c: "dev_ctx d' = apply_dump (apply_publish (apply_reset (?c\<lparr>loop_state := successor ?c\<rparr>)))"
    by (rule update_state_step(1)[OF u n(1)])
  have f: "wifi_ssid (dev_ctx d') = wifi_ssid ?c" "wifi_pass (dev_ctx d') = wifi_pass ?c" "prv_token (dev_ctx d') = prv_token ?c"
    "mqtt_initd (dev_ctx d') = mqtt_initd ?c" "mqtt_client (dev_ctx d') = mqtt_client ?c"
    using n(2) by (simp_all add: c apply_defs)
  have cf: "client_fine offline_states ?c" using a by (simp add: after_handler_def)
  have ns: "loop_state (dev_ctx d') = next_state ?c" unfolding c by (rule apply_next_state)
  have "mqtt_initd (dev_ctx d') \<longrightarrow> connected (dev_ctx d')" using cf f(4,5) by (simp add: client_fine_def connected_def)
  then have "client_fine (insert MQTT_INIT offline_states) (dev_ctx d')"
    unfolding client_fine_def ns f(4) using next_not_offline[OF cf n(2)] by blast
  moreover have "creds_fine (dev_ctx d')" using a f(1-3) creds_fine_cong by (auto simp: after_handler_def)
  moreover have "dev_flash d' = dev_flash d2" by (subst d') simp
  then have "saved (dev_flash d')" using a by (simp add: after_handler_def)
  ultimately show ?thesis using dev_inv_turn[OF i assms(3)] by (simp add: calm_def good_sector_def)
qed

section \<open>Runs\<close>

definition calm_start :: "device \<Rightarrow> bool" where
  "calm_start d \<longleftrightarrow> (\<exists>env fl. main_start env fl = Some (Inr d) \<and> good_sector fl)"

definition calm_step :: "device \<Rightarrow> dev_event \<Rightarrow> device \<Rightarrow> bool" where
  "calm_step d ev d' \<longleftrightarrow> benign ev \<and> dev_step d ev d'"

lemma start_ctx:
  assumes "main_start env fl = Some (Inr d)"
  shows "\<exists>hub slots dump. dev_ctx d = zero_ctx\<lparr>hub_loc := hub, logdump := slots, dump_logs := dump\<rparr>"
proof -
  from assms obtain hub e1 c1 h1 e2 where
    1: "dlog (st_log env 0) (zero_ctx\<lparr>hub_loc := hub\<rparr>) \<lparr>blocks = Map.empty, next_ptr = 0\<rparr> LOG_INFO
          (''HUB_LOC set to '' @ st_hub_loc env @ [NL]) = Some (e1, c1, h1)"
    and 2: "dlog (st_log env 1) c1 h1 LOG_INFO (''CYW43 Initialized'' @ [NL]) = Some (e2, dev_ctx d, dev_heap d)"
    unfolding main_start_def Let_def
    by (auto simp: bind_eq_Some_conv basicio_init_handler_def split: if_split_asm)
  obtain s1 b1 where c1: "c1 = zero_ctx\<lparr>hub_loc := hub, logdump := s1, dump_logs := b1\<rparr>"
    using dlog_frame[OF 1] by blast
  obtain s2 b2 where "dev_ctx d = c1\<lparr>logdump := s2, dump_logs := b2\<rparr>" using dlog_frame[OF 2] by blast
  with c1 have "dev_ctx d = zero_ctx\<lparr>hub_loc := hub, logdump := s2, dump_logs := b2\<rparr>" by simp
  then show ?thesis by blast
qed

lemma creds_fine_zero: "creds_fine zero_ctx"
  by (intro exI[of _ "[]"] iffD2[OF creds_fine_def])
     (simp add: has_creds_def zero_ctx_def cred_value_def c_str_terminated replicate_numeral)

lemma calm_started: "calm_start d \<Longrightarrow> calm d"
proof -
  assume "calm_start d"
  then obtain env fl where s: "main_start env fl = Some (Inr d)" "good_sector fl" by (auto simp: calm_start_def)
  then have f: "fresh_ctx (dev_ctx d)" "dev_flash d = fl" using start_fresh by blast+
  obtain hub slots dump where "dev_ctx d = zero_ctx\<lparr>hub_loc := hub, logdump := slots, dump_logs := dump\<rparr>"
    using start_ctx[OF s(1)] by blast
  then have "creds_fine (dev_ctx d)" using creds_fine_cong[OF creds_fine_zero, of "dev_ctx d"] by simp
  then show ?thesis
    using dev_inv_start[of d] s f by (auto simp: calm_def dev_started_def fresh_ctx_def client_fine_def)
qed

interpretation calm: event_system calm_start calm_step calm
proof
  fix d assume "calm_start d" then show "calm d" by (rule calm_started)
next
  fix d ev d' assume "calm d" "calm_step d ev d'"
  then show "calm d'"
    using calm_turn calm_callback[of d ev d'] by (cases "\<exists>env. ev = Turn env") (auto simp: calm_step_def elim!: dev_step_TurnE)
qed

lemma calm_run: "run_events dev_step d evs d' \<Longrightarrow> \<forall>ev \<in> set evs. benign ev \<Longrightarrow> run_events calm_step d evs d'"
  by (induction evs arbitrary: d) (auto simp: calm_step_def)

section \<open>The client id\<close>

text \<open>
  C20 (client_id_overread). On a device whose Wi-Fi and broker address work, whether connecting is defined depends on its
  hardware address: it is passed to lwIP as the client id, a C string, without a terminator. An address without a zero
  byte is read past its end; otherwise the device connects under what is before the first zero byte.
\<close>

theorem client_id_overread:
  assumes "mqtt_env_ok env" "client_calloc env" "client_new env" "creds_fine ctx" "ctx_wf ctx" "\<not> mqtt_initd ctx" "wifi_configd ctx"
    and "\<forall>s p. wifi_connect env s p = 0" "\<forall>hub. ip4addr_aton env hub = Some a"
  shows "(mqtt_init_handler env ctx h = None \<longleftrightarrow> 0 \<notin> set (dev_mac env)) \<and>
    (0 \<in> set (dev_mac env) \<longrightarrow> (\<exists>r c h' calls. mqtt_init_handler env ctx h =
       Some (r, c, h', Mqtt_client_connect a (takeWhile (\<lambda>b. b \<noteq> 0) (dev_mac env)) # calls)))"
proof -
  from assms(4) obtain s p where c: "c_str (wifi_ssid ctx) = Some s" "c_str (wifi_pass ctx) = Some p"
    by (auto simp: creds_fine_def has_creds_def)
  obtain hub where hub: "c_str (hub_loc ctx) = Some hub" using assms(5) c_str_None_iff[of "hub_loc ctx"] by (cases "c_str (hub_loc ctx)") (auto simp: ctx_wf_def)
  let ?st = "new_client a True"
  have w: "wifi_connect env s p = 0" "ip4addr_aton env hub = Some a" using assms(8,9) by simp_all
  from mqtt_init_to_connect[OF assms(7) c w(1) assms(2) hub, of h] assms(3) w(2) obtain l d h2 where
    r: "mqtt_init_handler env ctx h = do {
      (err, calls) \<leftarrow> mqtt_connect env ?st;
      mqtt_init_finish env (ctx\<lparr>logdump := l, dump_logs := d, mqtt_client := Some ?st\<rparr>) h2
        (if err = DT_ERR_OK then calls @ [Mqtt_set_inpub] else calls)
    }" by (auto simp: connect_tail_def Let_def)
  have first: "\<exists>calls'. out = (r, c, h', k # calls')"
    if "mqtt_init_finish env c0 h0 (k # ks) = Some out" "out = (r, c, h', calls)" for out c0 h0 k ks r c h' calls
    using that by (auto simp: mqtt_init_finish_def log_return_def bind_eq_Some_conv split: if_splits)
  show ?thesis
  proof (cases "0 \<in> set (dev_mac env)")
    case False
    then show ?thesis using r by (simp add: mqtt_connect_undefined)
  next
    case True
    from mqtt_init_connects_or_fails[OF assms(1,2,4-6) True, of h] obtain e c h' calls where
      some: "mqtt_init_handler env ctx h = Some (e, c, h', calls)" by (auto simp: connects_def)
    with r True obtain ks where "mqtt_init_finish env (ctx\<lparr>logdump := l, dump_logs := d, mqtt_client := Some ?st\<rparr>) h2
        (Mqtt_client_connect a (takeWhile (\<lambda>b. b \<noteq> 0) (dev_mac env)) # ks) = Some (e, c, h', calls)"
      using mqtt_connect_defined[OF True, of ?st] by (auto split: if_splits)
    from first[OF this refl] some True show ?thesis by auto
  qed
qed

definition online_config :: app_ctx where
  "online_config = zero_ctx\<lparr>wifi_configd := True\<rparr>"

theorem client_id_overread_witness:
  "mqtt_init_handler (std_mqtt_env\<lparr>dev_mac := [0x28, 0xCD, 0xC1, 4, 5, 6]\<rparr>) online_config empty_heap = None \<and>
   (\<exists>r c h' calls. mqtt_init_handler std_mqtt_env online_config empty_heap =
      Some (r, c, h', Mqtt_client_connect 1 [0x28, 0xCD, 0xC1] # calls))"
proof -
  let ?bad = "std_mqtt_env\<lparr>dev_mac := [0x28, 0xCD, 0xC1, 4, 5, 6]\<rparr>"
  have c: "creds_fine online_config" "ctx_wf online_config" "\<not> mqtt_initd online_config" "wifi_configd online_config"
    using creds_fine_zero creds_fine_cong[of zero_ctx online_config] ctx_wf_zero
    by (simp_all add: online_config_def ctx_wf_def) (simp add: zero_ctx_def)
  have e: "mqtt_env_ok env \<and> client_calloc env \<and> client_new env \<and> (\<forall>s p. wifi_connect env s p = 0) \<and> (\<forall>hub. ip4addr_aton env hub = Some 1)"
    if "env \<in> {std_mqtt_env, ?bad}" for env
    using that by (auto simp: mqtt_env_ok_def std_mqtt_env_def)
  have m: "0 \<notin> set (dev_mac ?bad)" "dev_mac std_mqtt_env = [0x28, 0xCD, 0xC1, 0, 5, 6]" by (simp_all add: std_mqtt_env_def)
  show ?thesis
    using client_id_overread[of ?bad online_config 1 empty_heap] client_id_overread[of std_mqtt_env online_config 1 empty_heap] c e m
    by simp
qed

end
