(* ===== verification/Mqtt_Test.thy ===== *)
theory Mqtt_Test
  imports Connect
begin

text \<open>
  Model of the diagnostic in \<open>src/connect/connect.c\<close> (\<open>mqtt_test\<close> and the functions it calls):
  connect to Wi-Fi and the broker, subscribe once, and publish a counter every five seconds
  until the caller cancels. The loop may run forever: it is given the environments of its
  iterations as a list and reports whether it was cancelled or is still running.
\<close>

section \<open>The diagnostic\<close>

text \<open>
  One iteration: the acknowledgements that arrive during \<open>cyw43_arch_poll\<close>, the clock with the
  difference of two times, the time out of \<open>make_timeout_time_ms(5000)\<close>, whether the client is
  connected, the environment of the publish, and whether the cancel callback is set and
  returns a nonzero value.
\<close>

record test_iter_env =
  ti_acks :: nat
  ti_now :: u64
  ti_diff :: "u64 \<Rightarrow> u64 \<Rightarrow> int"
  ti_timeout :: u64
  ti_connected :: bool
  ti_mqtt :: mqtt_env
  ti_cancel :: bool

definition test_json :: "mqtt_client_t \<Rightarrow> string" where
  "test_json st = ''{'' @ json_key ''message'' @
     json_str (''test dirtie node '' @ dec_int (sint (received st)) @ '' / '' @ dec_int (sint (counter st)) @ '' '') @ ''}''"

definition mqtt_test_publish :: "mqtt_env \<Rightarrow> mqtt_client_t \<Rightarrow> (lwip_err \<times> mqtt_call list) option" where
  "mqtt_test_publish env st = do {
     testbuf \<leftarrow> c_strcpy (fresh_bytes env 128) 0 (test_json st);
     msg \<leftarrow> c_str testbuf;
     require (lwip_client st);
     Some (publish_err env ''pico_w/test'' msg, [Mqtt_publish ''pico_w/test'' msg])
   }"

definition mqtt_test_connect :: "mqtt_env \<Rightarrow> mqtt_client_t \<Rightarrow> lwip_err \<times> mqtt_call list" where
  "mqtt_test_connect env st =
     (connect_err env (remote_addr st) (char_bytes ''KTestPicoW''),
      [Mqtt_client_connect (remote_addr st) (char_bytes ''KTestPicoW'')])"

text \<open>The locals of the loop; \<open>nil_time\<close> is 0.\<close>

record test_loop =
  tl_client :: mqtt_client_t
  tl_timeout :: u64
  tl_subscribed :: bool

definition test_iteration :: "test_iter_env \<Rightarrow> test_loop \<Rightarrow> (test_loop \<times> mqtt_call list) option" where
  "test_iteration e s =
     (let st = (mqtt_pub_request_cb ^^ ti_acks e) (tl_client s);
          s1 = s\<lparr>tl_client := st\<rparr>
      in if (tl_timeout s = 0 \<or> ti_diff e (ti_now e) (tl_timeout s) \<le> 0) \<and> ti_connected e
         then do {
           let subs = (if \<not> tl_subscribed s then [Mqtt_subscribe ''pico_w/recv''] else []);
           let s2 = s1\<lparr>tl_subscribed := True\<rparr>;
           (err, calls) \<leftarrow> mqtt_test_publish (ti_mqtt e) st;
           Some (if err = ERR_OK then s2\<lparr>tl_timeout := ti_timeout e, tl_client := st\<lparr>counter := counter st + 1\<rparr>\<rparr> else s2,
                 subs @ calls)
         }
         else Some (s1, []))"

text \<open>The last component: the loop returned, because it was cancelled.\<close>

fun test_iterations :: "test_iter_env list \<Rightarrow> test_loop \<Rightarrow> (test_loop \<times> mqtt_call list \<times> bool) option" where
  "test_iterations [] s = Some (s, [], False)"
| "test_iterations (e # es) s = do {
     (s1, calls) \<leftarrow> test_iteration e s;
     if ti_cancel e then Some (s1, calls, True)
     else do {
       (s2, calls', cancelled) \<leftarrow> test_iterations es s1;
       Some (s2, calls @ calls', cancelled)
     }
   }"

text \<open>The return value, or \<open>None\<close> while the loop is running.\<close>

definition mqtt_run_test ::
  "mqtt_env \<Rightarrow> test_iter_env list \<Rightarrow> mqtt_client_t \<Rightarrow> (int option \<times> mqtt_client_t \<times> mqtt_call list) option" where
  "mqtt_run_test env es st =
     (let st1 = st\<lparr>lwip_client := client_new env, counter := 0\<rparr>
      in if \<not> client_new env then Some (Some 1, st1, [])
         else (let (err, calls) = mqtt_test_connect env st1
               in if err = ERR_OK
                  then do {
                    (s, calls', cancelled) \<leftarrow> test_iterations es \<lparr>tl_client = st1, tl_timeout = 0, tl_subscribed = False\<rparr>;
                    Some (if cancelled then Some 0 else None, tl_client s, calls @ [Mqtt_set_inpub] @ calls')
                  }
                  else Some (Some 0, st1, calls)))"

text \<open>A log call followed by a return, as in the handler.\<close>

definition test_return ::
  "log_env \<Rightarrow> app_ctx \<Rightarrow> heap \<Rightarrow> string \<Rightarrow> int option \<Rightarrow> mqtt_call list \<Rightarrow>
   (int option \<times> app_ctx \<times> heap \<times> mqtt_call list) option" where
  "test_return lenv ctx h msg ret calls = do {
     (_, ctx', h') \<leftarrow> dlog lenv ctx h LOG_INFO msg;
     Some (ret, ctx', h', calls)
   }"

definition mqtt_test ::
  "mqtt_env \<Rightarrow> test_iter_env list \<Rightarrow> app_ctx \<Rightarrow> heap \<Rightarrow> (int option \<times> app_ctx \<times> heap \<times> mqtt_call list) option" where
  "mqtt_test env es ctx h =
     (if \<not> wifi_configd ctx
      then test_return (conn_log env 0) ctx h (''wifi credentials not yet configured'' @ [NL]) (Some 1) []
      else do {
        ssid \<leftarrow> c_str (wifi_ssid ctx);
        (_, ctx1, h1) \<leftarrow> dlog (conn_log env 0) ctx h LOG_INFO (''connecting to '' @ ssid @ [NL]);
        pass \<leftarrow> c_str (wifi_pass ctx1);
        if wifi_connect env ssid pass \<noteq> 0
        then test_return (conn_log env 1) ctx1 h1 (''failed to connect.'' @ [NL]) (Some 1) []
        else do {
          (_, ctx2, h2) \<leftarrow> dlog (conn_log env 1) ctx1 h1 LOG_INFO (''Connected.'' @ [NL]);
          st \<leftarrow> mqtt_client_init env;
          hub \<leftarrow> c_str (hub_loc ctx2);
          (case ip4addr_aton env hub of
             None \<Rightarrow> test_return (conn_log env 2) ctx2 h2 (''Invalid IP String '' @ hub @ '', exiting'' @ [NL]) (Some 1) []
           | Some a \<Rightarrow> do {
               (ret, _, calls) \<leftarrow> mqtt_run_test env es (st\<lparr>remote_addr := a\<rparr>);
               if ret \<noteq> None \<and> ret \<noteq> Some 0
               then test_return (conn_log env 2) ctx2 h2 (''MQTT Test Failed, exiting'' @ [NL]) (Some 1) calls
               else Some (ret, ctx2, h2, calls)
             })
        }
      })"

section \<open>What the loop sends\<close>

lemma acks_frame:
  "lwip_client ((mqtt_pub_request_cb ^^ n) st) = lwip_client st"
  "counter ((mqtt_pub_request_cb ^^ n) st) = counter st"
  by (induction n) (simp_all add: mqtt_pub_request_cb_def)

text \<open>The message always fits its buffer.\<close>

lemma length_dec_int_u32: "length (dec_int (sint (w :: u32))) \<le> 11"
proof -
  have b: "- (2 ^ 31) \<le> sint w" "sint w < 2 ^ 31"
    using sint_range_size[of w] by (simp_all add: word_size)
  have "length (dec (nat (- sint w))) \<le> 10" "length (dec (nat (sint w))) \<le> 10"
    using b by (intro length_dec_le; simp add: nat_less_iff)+
  then show ?thesis by (auto simp: dec_int_def)
qed

lemma test_publish_defined:
  assumes "mqtt_env_ok env" "lwip_client st"
  shows "mqtt_test_publish env st = Some (publish_err env ''pico_w/test'' (test_json st), [Mqtt_publish ''pico_w/test'' (test_json st)])"
proof -
  have cs: "is_cstring (test_json st)" by (simp add: test_json_def json_key_def json_str_def dec_int_cstring)
  have "length (test_json st) < 128"
    using length_dec_int_u32[of "received st"] length_dec_int_u32[of "counter st"]
    by (simp add: test_json_def json_key_def json_str_def)
  then have "c_strcpy (fresh_bytes env 128) 0 (test_json st) =
      Some (test_json st @ NUL # drop (Suc (length (test_json st))) (fresh_bytes env 128))"
    using assms(1) by (simp add: c_strcpy_def blit_def mqtt_env_ok_def)
  then show ?thesis using assms(2) c_str_terminated[OF cs] by (simp add: mqtt_test_publish_def)
qed

text \<open>
  With a client the loop never leaves defined behaviour, subscribes at most once and before
  anything it publishes, and its counter counts the messages sent when none is refused.
\<close>

definition is_pub :: "mqtt_call \<Rightarrow> bool" where
  "is_pub c \<longleftrightarrow> (case c of Mqtt_publish _ _ \<Rightarrow> True | _ \<Rightarrow> False)"

definition test_calls_ok :: "bool \<Rightarrow> mqtt_call list \<Rightarrow> bool" where
  "test_calls_ok subscribed calls \<longleftrightarrow>
     (if subscribed then list_all is_pub calls
      else calls = [] \<or> (hd calls = Mqtt_subscribe ''pico_w/recv'' \<and> list_all is_pub (tl calls)))"

lemma test_iteration_calls:
  assumes "lwip_client (tl_client s)" "mqtt_env_ok (ti_mqtt e)" "\<forall>t m. publish_err (ti_mqtt e) t m = ERR_OK"
  shows "\<exists>s' calls. test_iteration e s = Some (s', calls) \<and> lwip_client (tl_client s') \<and>
    test_calls_ok (tl_subscribed s) calls \<and> tl_subscribed s' = (tl_subscribed s \<or> calls \<noteq> []) \<and>
    counter (tl_client s') = counter (tl_client s) + of_nat (length (filter is_pub calls))"
proof -
  define st where "st = (mqtt_pub_request_cb ^^ ti_acks e) (tl_client s)"
  have st: "lwip_client st" "counter st = counter (tl_client s)" using assms(1) by (simp_all add: st_def acks_frame)
  note pub = test_publish_defined[OF assms(2) st(1)]
  let ?p = "Mqtt_publish ''pico_w/test'' (test_json st)"
  show ?thesis
  proof (cases "(tl_timeout s = 0 \<or> ti_diff e (ti_now e) (tl_timeout s) \<le> 0) \<and> ti_connected e")
    case True
    let ?calls = "(if \<not> tl_subscribed s then [Mqtt_subscribe ''pico_w/recv''] else []) @ [?p]"
    have "test_iteration e s = Some (s\<lparr>tl_client := st\<lparr>counter := counter st + 1\<rparr>, tl_timeout := ti_timeout e, tl_subscribed := True\<rparr>, ?calls)"
      using True pub assms(3) by (simp add: test_iteration_def Let_def st_def[symmetric])
    then show ?thesis using st by (intro exI conjI) (assumption | simp add: test_calls_ok_def is_pub_def)+
  next
    case False
    have "test_iteration e s = Some (s\<lparr>tl_client := st\<rparr>, [])"
      unfolding test_iteration_def Let_def st_def[symmetric] by (simp only: False if_False)
    then show ?thesis using st by (intro exI conjI) (assumption | simp add: test_calls_ok_def)+
  qed
qed

lemma test_calls_append:
  "test_calls_ok b xs \<Longrightarrow> test_calls_ok (b \<or> xs \<noteq> []) ys \<Longrightarrow> test_calls_ok b (xs @ ys)"
  by (cases xs) (auto simp: test_calls_ok_def split: if_splits)

lemma test_iterations_calls:
  assumes "lwip_client (tl_client s)" "\<forall>e \<in> set es. mqtt_env_ok (ti_mqtt e) \<and> (\<forall>t m. publish_err (ti_mqtt e) t m = ERR_OK)"
  shows "\<exists>s' calls cancelled. test_iterations es s = Some (s', calls, cancelled) \<and> test_calls_ok (tl_subscribed s) calls \<and>
    counter (tl_client s') = counter (tl_client s) + of_nat (length (filter is_pub calls)) \<and>
    cancelled = list_ex ti_cancel es"
  using assms
proof (induction es arbitrary: s)
  case Nil
  have "test_iterations [] s = Some (s, [], False)" by simp
  then show ?case by (intro exI conjI) (assumption | simp add: test_calls_ok_def)+
next
  case (Cons e es)
  from test_iteration_calls[OF Cons.prems(1), of e] Cons.prems(2) obtain s1 calls where
    1: "test_iteration e s = Some (s1, calls)" "lwip_client (tl_client s1)" "test_calls_ok (tl_subscribed s) calls"
      "tl_subscribed s1 = (tl_subscribed s \<or> calls \<noteq> [])"
      "counter (tl_client s1) = counter (tl_client s) + of_nat (length (filter is_pub calls))" by auto
  from Cons.IH[OF 1(2)] Cons.prems(2) obtain s2 calls' cancelled where
    2: "test_iterations es s1 = Some (s2, calls', cancelled)" "test_calls_ok (tl_subscribed s1) calls'"
      "counter (tl_client s2) = counter (tl_client s1) + of_nat (length (filter is_pub calls'))" "cancelled = list_ex ti_cancel es"
    by auto
  show ?case
    using 1 2 test_calls_append[OF 1(3), of calls'] by (cases "ti_cancel e") auto
qed

text \<open>
  C37 (mqtt_test_loop). The diagnostic returns exactly when it is cancelled, with result 0. Until then it keeps running:
  it connects, subscribes once before its first message, and its counter is the number of messages sent, as
  long as the broker takes them.
\<close>

theorem mqtt_test_loop:
  assumes "client_new env" "connect_err env (remote_addr st) (char_bytes ''KTestPicoW'') = ERR_OK"
    and "\<forall>e \<in> set es. mqtt_env_ok (ti_mqtt e) \<and> (\<forall>t m. publish_err (ti_mqtt e) t m = ERR_OK)"
  shows "\<exists>st' calls. mqtt_run_test env es st =
      Some (if list_ex ti_cancel es then Some 0 else None, st',
        [Mqtt_client_connect (remote_addr st) (char_bytes ''KTestPicoW''), Mqtt_set_inpub] @ calls) \<and>
    test_calls_ok False calls \<and> counter st' = of_nat (length (filter is_pub calls))"
proof -
  let ?st = "st\<lparr>lwip_client := client_new env, counter := 0\<rparr>"
  let ?s = "\<lparr>tl_client = ?st, tl_timeout = 0, tl_subscribed = False\<rparr>"
  from test_iterations_calls[of ?s es] assms(1,3) obtain s' calls cancelled where
    i: "test_iterations es ?s = Some (s', calls, cancelled)" "test_calls_ok False calls"
      "counter (tl_client s') = of_nat (length (filter is_pub calls))" "cancelled = list_ex ti_cancel es"
    by auto
  have "mqtt_run_test env es st = Some (if cancelled then Some 0 else None, tl_client s',
      [Mqtt_client_connect (remote_addr st) (char_bytes ''KTestPicoW''), Mqtt_set_inpub] @ calls)"
    using i(1) assms(1,2) by (simp add: mqtt_run_test_def mqtt_test_connect_def Let_def)
  with i(2-4) show ?thesis by (intro exI[of _ "tl_client s'"] exI[of _ calls]) simp
qed

text \<open>Three iterations: a message, a wait, and the cancellation after another message.\<close>

definition std_test_iter :: "u64 \<Rightarrow> bool \<Rightarrow> test_iter_env" where
  "std_test_iter us cancel = \<lparr>ti_acks = 1, ti_now = us, ti_diff = (\<lambda>a b. uint b - uint a), ti_timeout = us + 5000000,
     ti_connected = True, ti_mqtt = std_mqtt_env, ti_cancel = cancel\<rparr>"

theorem mqtt_test_loop_witness:
  "\<exists>st' calls. mqtt_run_test std_mqtt_env [std_test_iter 1 False, std_test_iter 1000001 False, std_test_iter 5000001 True] std_client =
     Some (Some 0, st', calls)"
proof -
  have "client_new std_mqtt_env" "connect_err std_mqtt_env (remote_addr std_client) (char_bytes ''KTestPicoW'') = ERR_OK"
    "mqtt_env_ok (ti_mqtt (std_test_iter us b)) \<and> (\<forall>t m. publish_err (ti_mqtt (std_test_iter us b)) t m = ERR_OK)" for us b
    using std_mqtt_env_ok(1) by (simp_all add: std_test_iter_def) (simp_all add: std_mqtt_env_def)
  from mqtt_test_loop[OF this(1,2), of "[std_test_iter 1 False, std_test_iter 1000001 False, std_test_iter 5000001 True]"] this(3)
  show ?thesis by (simp add: std_test_iter_def) blast
qed

end
