(* ===== verification/Store_Properties.thy ===== *)
theory Store_Properties
  imports Credentials
begin

text \<open>
  The properties of the key/value store in flash and of the two handlers over it: the
  refinement of lookup and update, the round trips, and the three cases in which the store
  loses data silently. Each rests on the interpretation of the store contract or on the
  lemmas of \<open>Flash_Store\<close>.
\<close>

text \<open>
  C8 (write_updates_store). A write that is legal for what the sector holds succeeds and leaves a sector that
  represents the association list updated at the key.
\<close>

theorem write_updates_store:
  assumes "store_rep fl m" "flash_dev_ok dev" "legal_put k v m"
  shows "\<exists>fl'. write_val dev k v fl = Some (DT_ERR_OK, fl') \<and> store_rep fl' (AList.update k v m)"
  using assms by (rule flash.put_rep)

theorem write_updates_store_witness:
  "\<exists>fl'. write_val std_flash_dev ''ssid'' ''Home'' (replicate NVS_SIZE NUL) = Some (DT_ERR_OK, fl') \<and>
     store_rep fl' [(''ssid'', ''Home'')]"
  using write_updates_store[OF store_rep_empty std_flash_dev_ok, of "''ssid''" "''Home''"]
  by (simp add: legal_put_def valid_key_def special_ch_def MAX_VAL_SIZE_def suffix_free_def write_room_def
      render_def item_text_def NVS_SIZE_def)

text \<open>
  C9 (read_refines_lookup). A read of a valid key agrees with the lookup in the represented list: the value of a
  stored key lands in the buffer, a key not stored is reported and the buffer left alone.
\<close>

theorem read_refines_lookup:
  assumes "store_rep fl m" "flash_dev_ok dev" "valid_key k" "key_visible k m"
    and "\<forall>v. map_of m k = Some v \<longrightarrow> fits_buffer out v"
  shows "\<exists>e out'. read_val dev k out fl = Some (e, out') \<and>
    (case map_of m k of Some v \<Rightarrow> e = DT_ERR_OK \<and> holds_string out' v
     | None \<Rightarrow> e = DT_ERR_KEYNOTFOUND \<and> out' = out)"
  using assms flash.fetch_found[OF assms(1,2)] flash.fetch_missing[OF assms(1,2)]
  by (cases "map_of m k") auto

theorem read_refines_lookup_witness:
  "\<exists>e out'. read_val std_flash_dev ''ssid'' (replicate 64 NUL) (sector_of [(''ssid'', ''a=b'')]) = Some (e, out') \<and>
     e = DT_ERR_OK \<and> holds_string out' ''a=b''"
proof -
  have "store_rep (sector_of [(''ssid'', ''a=b'')]) [(''ssid'', ''a=b'')]"
    by (rule store_rep_sector)
      (simp_all add: items_wf_def valid_key_def special_ch_def MAX_VAL_SIZE_def suffix_free_def render_def item_text_def NVS_SIZE_def)
  from read_refines_lookup[OF this std_flash_dev_ok, of "''ssid''" "replicate 64 NUL"] show ?thesis
    by (simp add: valid_key_def special_ch_def key_visible_def fits_buffer_def)
qed

text \<open>
  C10 (write_then_read). After a write the written key reads back as the value written, and every other key as
  the value it had.
\<close>

theorem write_then_read:
  assumes "store_rep fl m" "flash_dev_ok dev" "flash_dev_ok dev'" "legal_put k v m"
  shows "\<exists>fl'. write_val dev k v fl = Some (DT_ERR_OK, fl') \<and>
    (fits_buffer out v \<longrightarrow> (\<exists>out'. read_val dev' k out fl' = Some (DT_ERR_OK, out') \<and> holds_string out' v)) \<and>
    (\<forall>k' w. k' \<noteq> k \<longrightarrow> map_of m k' = Some w \<longrightarrow> fits_buffer out w \<longrightarrow>
       (\<exists>out'. read_val dev' k' out fl' = Some (DT_ERR_OK, out') \<and> holds_string out' w))"
proof -
  from flash.put_rep[OF assms(1,2,4)] obtain fl' where w: "write_val dev k v fl = Some (DT_ERR_OK, fl')" by blast
  have "\<exists>out'. read_val dev' k out fl' = Some (DT_ERR_OK, out') \<and> holds_string out' v" if "fits_buffer out v"
    using flash.put_fetch_same[OF assms that] w by simp
  moreover have "\<exists>out'. read_val dev' k' out fl' = Some (DT_ERR_OK, out') \<and> holds_string out' x"
    if "k' \<noteq> k" "map_of m k' = Some x" "fits_buffer out x" for k' x
    using flash.put_fetch_other[OF assms that] w by simp
  ultimately show ?thesis using w by blast
qed

theorem write_then_read_witness:
  "\<exists>fl'. write_val std_flash_dev ''password'' ''x'' (sector_of [(''ssid'', ''Home'')]) = Some (DT_ERR_OK, fl') \<and>
    (\<exists>out'. read_val std_flash_dev ''password'' (replicate 64 NUL) fl' = Some (DT_ERR_OK, out') \<and> holds_string out' ''x'') \<and>
    (\<exists>out'. read_val std_flash_dev ''ssid'' (replicate 64 NUL) fl' = Some (DT_ERR_OK, out') \<and> holds_string out' ''Home'')"
proof -
  have "store_rep (sector_of [(''ssid'', ''Home'')]) [(''ssid'', ''Home'')]"
    by (rule store_rep_sector)
      (simp_all add: items_wf_def valid_key_def special_ch_def MAX_VAL_SIZE_def suffix_free_def render_def item_text_def NVS_SIZE_def)
  moreover have "legal_put ''password'' ''x'' [(''ssid'', ''Home'')]"
    by (rule cred_legal_put)
      (auto simp: cred_store_def items_wf_def valid_key_def special_ch_def cred_keys_def cred_value_def MAX_VAL_SIZE_def suffix_free_def)
  ultimately obtain fl' where
    w: "write_val std_flash_dev ''password'' ''x'' (sector_of [(''ssid'', ''Home'')]) = Some (DT_ERR_OK, fl')"
    and same: "fits_buffer (replicate 64 NUL) ''x'' \<longrightarrow>
      (\<exists>out'. read_val std_flash_dev ''password'' (replicate 64 NUL) fl' = Some (DT_ERR_OK, out') \<and> holds_string out' ''x'')"
    and other: "\<forall>k' w. k' \<noteq> ''password'' \<longrightarrow> map_of [(''ssid'', ''Home'')] k' = Some w \<longrightarrow> fits_buffer (replicate 64 NUL) w \<longrightarrow>
      (\<exists>out'. read_val std_flash_dev k' (replicate 64 NUL) fl' = Some (DT_ERR_OK, out') \<and> holds_string out' w)"
    using write_then_read[OF _ std_flash_dev_ok std_flash_dev_ok] by blast
  have "fits_buffer (replicate 64 NUL) ''x''" "fits_buffer (replicate 64 NUL) ''Home''"
    by (simp_all add: fits_buffer_def special_ch_def)
  with w same other[rule_format, of "''ssid''" "''Home''"] show ?thesis by simp
qed

text \<open>
  C12 (comma_cuts_value). A value with a comma is stored escaped but read back only up to the comma, because
  \<open>get_val_end\<close> takes the escaped comma for the end of the item.
\<close>

theorem comma_cuts_value:
  assumes rep: "store_rep fl m" and dev: "flash_dev_ok dev" "flash_dev_ok dev'"
    and k: "valid_key k" "k \<notin> set (map fst m)" "key_visible k m"
    and v: "v = a @ CHR '','' # b" "CHR '','' \<notin> set a" "is_cstring v" "length v \<le> MAX_VAL_SIZE"
    and room: "length (render (m @ [(k, v)])) < NVS_SIZE" "length (render (m @ [(k, v)])) mod 256 \<noteq> 0"
    and out: "length (esc a) + 1 < length out"
  shows "\<exists>fl' r. write_val dev k v fl = Some (DT_ERR_OK, fl') \<and> read_val dev' k out fl' = Some (DT_ERR_OK, a @ NUL # r)"
proof -
  let ?s = "render (m @ [(k, v)])"
  obtain r where r: "length (?s @ NUL # r) = NVS_SIZE" and w: "write_val dev k v fl = Some (DT_ERR_OK,
      take (write_size (length ?s)) (?s @ NUL # r) @ replicate (NVS_SIZE - write_size (length ?s)) (CHR 0xFF))"
    using write_val_new[OF rep dev(1) k v(3,4) room(1)] by blast
  have mwf: "items_wf m" using rep by (simp add: store_rep_def)
  have cs: "is_cstring ?s"
    using is_cstring_render[OF mwf] k(1) v(3) by (simp add: render_simps item_text_def valid_key_cstring is_cstring_esc)
  obtain r' where r': "take (write_size (length ?s)) (?s @ NUL # r) = ?s @ NUL # r'"
    using take_past_terminator write_size_bounds[OF room(2,1)] by blast
  have fl': "c_str (take (write_size (length ?s)) (?s @ NUL # r) @ replicate (NVS_SIZE - write_size (length ?s)) (CHR 0xFF)) =
      Some (render m @ item_text (k, v) @ [])"
    unfolding r' using c_str_terminated[OF cs] by (simp add: render_simps)
  have vis: "\<forall>(k', v') \<in> set m. valid_key k' \<and> \<not> suffix k k'"
    using mwf k(2,3) by (force simp: items_wf_def key_visible_def)
  have b: "boundary []" by (simp add: boundary_def)
  have ve: "get_val_end (esc v @ []) = (DT_ERR_OK, length (esc a @ [CHR 0x5C]))"
    "take (length (esc a @ [CHR 0x5C])) (esc v @ []) = esc a @ [CHR 0x5C]"
    using get_val_end_comma[OF v(2), of b "[]"] v(1) by (simp_all add: esc_append special_ch_def)
  have "is_cstring a" using v(1,3) by simp
  from read_val_item[OF fl' k(1) b flash_dev_okD(1)[OF dev(2)] vis ve this] out w show ?thesis by auto
qed

theorem comma_cuts_value_witness:
  "\<exists>fl' r. write_val std_flash_dev ''ssid'' ''My,Net'' (replicate NVS_SIZE NUL) = Some (DT_ERR_OK, fl') \<and>
     read_val std_flash_dev ''ssid'' (replicate 64 NUL) fl' = Some (DT_ERR_OK, ''My'' @ NUL # r)"
  by (rule comma_cuts_value[OF store_rep_empty std_flash_dev_ok std_flash_dev_ok, where b = "''Net''"])
    (simp_all add: valid_key_def special_ch_def MAX_VAL_SIZE_def key_visible_def render_def item_text_def NVS_SIZE_def)

text \<open>
  C13 (overwrite_dropped). Overwriting a key whose item lies far into the sector is dropped although \<open>write\<close>
  reports success: the size check of \<open>splice\<close> counts the text before the item twice, and
  \<open>upsert_key\<close> ignores its error.
\<close>

theorem overwrite_dropped:
  assumes rep: "store_rep fl (pre @ (k, old) # post)" and dev: "flash_dev_ok dev"
    and v: "is_cstring v" "length v \<le> MAX_VAL_SIZE"
    and full: "2 * (length (render pre) + 1) + length (item_text (k, old)) + length (item_text (k, v)) > NVS_SIZE + 2"
    and page: "length (render (pre @ (k, old) # post)) mod 256 \<noteq> 0"
  shows "\<exists>fl'. write_val dev k v fl = Some (DT_ERR_OK, fl') \<and> store_rep fl' (pre @ (k, old) # post)"
proof -
  let ?m = "pre @ (k, old) # post"
  obtain r where fl: "fl = render ?m @ NUL # r" "length fl = 4096" "items_wf ?m" "is_cstring (render ?m)"
    by (rule store_repD[OF rep])
  have len: "length (render ?m @ NUL # r) = NVS_SIZE" using fl(1,2) by (simp add: NVS_SIZE_def)
  have u: "upsert_key dev k v fl fl = Some (DT_ERR_OK, render ?m @ NUL # r, fl)"
    using upsert_refused[OF rep dev v(1) full v(2)] unfolding fl(1)[symmetric] .
  have n: "length (render ?m) < NVS_SIZE" using len by simp
  show ?thesis
    using write_val_finish[OF dev _ v(2) u fl(4) len] store_rep_programmed[OF fl(3) len] write_size_bounds[OF page n] fl(2)
    by (simp add: NVS_SIZE_def)
qed


text \<open>Eight values of 256 characters: the last one lies past the middle of the sector.\<close>

definition big_items :: items where
  "big_items = map (\<lambda>k. ([k], replicate 256 (CHR ''v''))) ''abcdefgh''"

lemma big_items_wf: "items_wf big_items" and big_items_length: "length (render big_items) = 2072"
proof -
  have e: "esc (replicate n (CHR ''v'')) = replicate n (CHR ''v'')" for n
    by (induction n) (simp_all add: special_ch_def)
  show "items_wf big_items"
    by (auto simp: items_wf_def big_items_def valid_key_def special_ch_def MAX_VAL_SIZE_def suffix_free_def
        suffix_to_prefix is_cstring_def)
  show "length (render big_items) = 2072"
    by (simp add: length_render big_items_def e)
qed

lemma big_items_split: "big_items = take 7 big_items @ (''h'', replicate 256 (CHR ''v'')) # []"
  by (simp add: big_items_def numeral_eq_Suc)

theorem overwrite_dropped_witness:
  "\<exists>fl'. write_val std_flash_dev ''h'' (replicate 250 (CHR ''w'')) (sector_of big_items) = Some (DT_ERR_OK, fl') \<and>
     store_rep fl' big_items"
proof -
  have e: "esc (replicate n (CHR ''v'')) = replicate n (CHR ''v'')" "esc (replicate n (CHR ''w'')) = replicate n (CHR ''w'')" for n
    by (induction n) (simp_all add: special_ch_def)
  have "length (render (take 7 big_items)) = 1813"
    by (simp add: length_render big_items_def e)
  moreover have "store_rep (sector_of big_items) big_items"
    by (rule store_rep_sector[OF big_items_wf]) (simp add: big_items_length NVS_SIZE_def)
  ultimately show ?thesis
    using overwrite_dropped[OF _ std_flash_dev_ok, of "sector_of big_items" "take 7 big_items" "''h''"
        "replicate 256 (CHR ''v'')" "[]" "replicate 250 (CHR ''w'')"] big_items_length
    unfolding big_items_split[symmetric]
    by (simp add: is_cstring_def MAX_VAL_SIZE_def item_text_def e NVS_SIZE_def)
qed

text \<open>
  C14 (page_multiple_unterminated). When the new text fills whole pages, \<open>write\<close> programs no terminator and every later
  read runs off the sector.
\<close>

theorem page_multiple_unterminated:
  assumes rep: "store_rep fl m" and dev: "flash_dev_ok dev"
    and k: "valid_key k" "k \<notin> set (map fst m)" "key_visible k m" and v: "is_cstring v" "length v \<le> MAX_VAL_SIZE"
    and page: "length (render (m @ [(k, v)])) < NVS_SIZE" "length (render (m @ [(k, v)])) mod 256 = 0"
  shows "\<exists>fl'. write_val dev k v fl = Some (DT_ERR_OK, fl') \<and>
    (\<forall>k' out. valid_key k' \<longrightarrow> read_val dev k' out fl' = None)"
proof -
  let ?s = "render (m @ [(k, v)])"
  obtain r where r: "length (?s @ NUL # r) = NVS_SIZE" and w: "write_val dev k v fl = Some (DT_ERR_OK,
      take (write_size (length ?s)) (?s @ NUL # r) @ replicate (NVS_SIZE - write_size (length ?s)) (CHR 0xFF))"
    using write_val_new[OF rep dev k v page(1)] by blast
  have mwf: "items_wf m" using rep by (simp add: store_rep_def)
  have cs: "is_cstring ?s"
    using is_cstring_render[OF mwf] k(1) v(1) by (simp add: render_simps item_text_def valid_key_cstring is_cstring_esc)
  let ?fl = "?s @ replicate (NVS_SIZE - length ?s) (CHR 0xFF)"
  have w': "write_val dev k v fl = Some (DT_ERR_OK, ?fl)" using w page(2) by (simp add: write_size_def)
  have "c_str ?fl = None" using cs by (auto simp: c_str_None_iff is_cstring_def)
  then have "read_val dev k' out ?fl = None" if "valid_key k'" for k' out
    using that by (simp add: read_val_def invalid_key_valid bind_eq_None_conv)
  with w' show ?thesis by blast
qed

theorem page_multiple_unterminated_witness:
  "\<exists>fl'. write_val std_flash_dev ''k'' (replicate 253 (CHR ''v'')) (replicate NVS_SIZE NUL) = Some (DT_ERR_OK, fl') \<and>
     read_val std_flash_dev ''k'' (replicate 64 NUL) fl' = None"
proof -
  have e: "esc (replicate n (CHR ''v'')) = replicate n (CHR ''v'')" for n
    by (induction n) (simp_all add: special_ch_def)
  have k: "valid_key ''k''" by (simp add: valid_key_def special_ch_def)
  from page_multiple_unterminated[OF store_rep_empty std_flash_dev_ok k, of "replicate 253 (CHR ''v'')"] k show ?thesis
    by (auto simp: key_visible_def MAX_VAL_SIZE_def render_def item_text_def NVS_SIZE_def e is_cstring_def)
qed

text \<open>
  Escaping a value and unescaping it in place gives the value back, at no more than twice
  its length.
\<close>

theorem escape_roundtrip:
  assumes "flash_dev_ok dev" "is_cstring v"
  shows "\<exists>s r'. esc_chars dev (Some v) = Some (Some s) \<and> length s \<le> 2 * length v \<and>
    unesc_loop (s @ NUL # r) 0 (length s) = Some (v @ NUL # r')"
proof -
  from esc_chars_correct[OF assms(2) flash_dev_okD(1)[OF assms(1)]] have "esc_chars dev (Some v) = Some (Some (esc v))" .
  with unesc_loop_esc[OF assms(2), of "[]" "[]" r] length_esc_le[of v] show ?thesis by auto
qed

theorem escape_roundtrip_witness:
  "\<exists>s r'. esc_chars std_flash_dev (Some ''a=b,c'') = Some (Some s) \<and> length s \<le> 10 \<and>
    unesc_loop (s @ [NUL]) 0 (length s) = Some (''a=b,c'' @ NUL # r')"
  using escape_roundtrip[OF std_flash_dev_ok, of "''a=b,c''" "[]"] by simp

text \<open>
  C11 (credentials_roundtrip). Credentials saved by the write handler are those the init handler restores after a
  reboot, and it marks the device configured.
\<close>

theorem credentials_roundtrip:
  assumes "store_rep fl m" "\<forall>i. flash_dev_ok (dev i)" "\<forall>i. flash_dev_ok (dev' i)" "cred_store m"
    and "has_creds ctx s p t" "cred_value s" "cred_value p" "cred_value t" "ctx_wf ctx'"
  shows "\<exists>fl' ctx2. flash_write_handler dev ctx fl = Some (DT_ERR_OK, ctx\<lparr>flash_written := True\<rparr>, fl') \<and>
    flash_init_handler dev' ctx' fl' = Some (DT_ERR_OK, ctx2, fl') \<and> has_creds ctx2 s p t \<and>
    wifi_configd ctx2 \<and> flash_initd ctx2"
proof -
  from flash_write_handler_saves[where dev = dev, OF assms(1) _ assms(4-8)] assms(2) obtain fl' where
    w: "flash_write_handler dev ctx fl = Some (DT_ERR_OK, ctx\<lparr>flash_written := True\<rparr>, fl')"
    "store_rep fl' (save_creds s p t m)" by blast
  from flash_init_handler_loads[where dev = dev', OF w(2) _ save_creds_lookup assms(6-9)] assms(3) w(1) show ?thesis by blast
qed


text \<open>A context whose fields hold given credentials.\<close>

definition ctx_with :: "string \<Rightarrow> string \<Rightarrow> string \<Rightarrow> app_ctx" where
  "ctx_with s p t = zero_ctx\<lparr>wifi_ssid := s @ replicate (64 - length s) NUL,
     wifi_pass := p @ replicate (64 - length p) NUL, prv_token := t @ replicate (64 - length t) NUL\<rparr>"

lemma c_str_field: "is_cstring s \<Longrightarrow> length s < 64 \<Longrightarrow> c_str (s @ replicate (64 - length s) NUL) = Some s"
  by (cases "64 - length s") (auto simp: c_str_append)

lemma has_creds_ctx_with:
  assumes "is_cstring s" "is_cstring p" "is_cstring t" "length s < 64" "length p < 64" "length t < 64"
  shows "has_creds (ctx_with s p t) s p t" and "ctx_wf (ctx_with s p t)"
  using assms by (simp_all add: has_creds_def ctx_with_def c_str_field ctx_wf_def zero_ctx_def)

theorem credentials_roundtrip_witness:
  "\<exists>fl' ctx2. flash_write_handler (\<lambda>_. std_flash_dev) (ctx_with ''Home'' ''p=w'' ''tok'') (replicate NVS_SIZE NUL) =
      Some (DT_ERR_OK, (ctx_with ''Home'' ''p=w'' ''tok'')\<lparr>flash_written := True\<rparr>, fl') \<and>
    flash_init_handler (\<lambda>_. std_flash_dev) zero_ctx fl' = Some (DT_ERR_OK, ctx2, fl') \<and>
    has_creds ctx2 ''Home'' ''p=w'' ''tok'' \<and> wifi_configd ctx2 \<and> flash_initd ctx2"
  by (rule credentials_roundtrip[OF store_rep_empty _ _ cred_store_Nil has_creds_ctx_with(1)])
    (simp_all add: std_flash_dev_ok cred_value_def special_ch_def ctx_wf_zero)

end
