(* ===== verification/Spec2Isabelle.thy ===== *)
theory Spec2Isabelle
  imports Safety Mqtt_Test Store_Properties
begin
text \<open>
  A verification library for the firmware of dirtie-node, a soil-moisture sensor on a
  Raspberry Pi Pico W (\<open>src/src/**\<close>, C). All paths below are relative to \<open>src/src/\<close>.

  \<^bold>\<open>The program.\<close> \<open>main.c\<close> allocates one application context (\<open>state/state.h\<close>) and runs an
  endless loop: it calls the handler of the current loop state, logs its error, lets
  \<open>state/state.c\<close> choose the next state, and goes on. The handlers read the credentials from
  flash (\<open>flashmem\<close>), else open an access point with a DHCP and an HTTP server
  (\<open>access_point\<close>) and wait for credentials, save them, connect to Wi-Fi and an MQTT broker
  (\<open>connect\<close>), initialise the sensor (\<open>sensor\<close>), set the clock (\<open>util\<close>), and then sample,
  publish and dump the log (\<open>logger\<close>, \<open>b64\<close>) in turn. Timer, network and alarm callbacks run
  between the turns and communicate through the context.

  \<^bold>\<open>Theories and what they model.\<close>

    \<^item> \<open>Prelude\<close>: C memory as lists of bytes (checked reads and writes, \<open>c_str\<close>, \<open>strcpy\<close>,
      \<open>snprintf\<close>, \<open>strchr\<close>, \<open>strstr\<close>), decimal and hexadecimal conversion, the lemma collections.
    \<^item> \<open>Contracts\<close>: the interfaces as locales (a key/value store, a codec, an event system) with
      the lemmas their clients use; each is interpreted on the model's definitions in the theory that
      provides it (\<open>Flash_Store\<close>, \<open>B64\<close>, \<open>Util\<close>, \<open>Main_Loop\<close>).
    \<^item> \<open>Ctx\<close>: \<open>dt_err.h\<close>, \<open>state/state.h\<close> (loop states, \<open>APP_CTX_T\<close>), \<open>MQTT_CLIENT_T\<close>, \<open>NTP_T\<close>, and the
      heap of log lines.
    \<^item> \<open>Flashmem\<close>: every function of \<open>flashmem/flashmem.c\<close>. \<open>Flash_Store\<close>: the text of a sector as an
      association list (\<open>store_rep\<close>) and the refinement of \<open>write\<close> and \<open>read\<close> to update and lookup.
      \<open>Store_Properties\<close>: the store's contract and the inputs on which it is broken.
      \<open>Credentials\<close>: the write and init handlers over that contract.
    \<^item> \<open>Logger\<close>: \<open>logger/logger.c\<close>; \<open>B64\<close>: \<open>b64/b64.c\<close> with a reference encoding after RFC 4648, which
      shares no definition with the code's model, and a decoder;
      \<open>State_Machine\<close>: \<open>update_state\<close> of \<open>state/state.c\<close> with its table; \<open>Util\<close>: \<open>util/util.c\<close>, the NTP client as
      a step function over its callbacks; \<open>Sensor\<close>: \<open>sensor/sensor.c\<close>; \<open>Basicio\<close>: \<open>basicio/basicio.c\<close>.
    \<^item> \<open>Lwip\<close>: the packet buffer interface of lwIP; \<open>Connect\<close>: \<open>connect/connect.c\<close> without its diagnostic,
      which is \<open>Mqtt_Test\<close>; \<open>Dhcp\<close>: \<open>access_point/dhcpserver.c\<close>, whose message structure is its memory, with the
      members at the offsets their declaration gives them; \<open>Host\<close>: \<open>access_point/host.c\<close>.
    \<^item> \<open>Main_Loop\<close>: \<open>main.c\<close> and the dispatch table; the device as a transition system (\<open>dev_step\<close>)
      whose events are a turn of the loop, the timer, an HTTP segment, a DHCP packet, an NTP
      event and a publish acknowledgement; the invariant of each handler and of the device.
      \<open>First_Cycle\<close>: the run of a device on which everything succeeds, stage by stage, up to its first
      sample, and a run with failures that comes to the log dump. \<open>Safety\<close>: every handler and callback
      is defined up to the first sample or log dump, also when network and sensor fail; and the client id.
    \<^item> this theory: the properties that span components.

  \<^bold>\<open>Reading the model.\<close> A C function is a HOL function of the same name over the context, the
  heap or the sector it changes, and an environment. The result is an option: \<open>None\<close> is undefined
  behaviour (an access outside an object, a missing terminator, use after free), so
  a theorem that a call is \<open>Some\<close> says that it stays inside its memory. Three handlers end without a
  \<open>return\<close>: the value in their result is itself an option, \<open>None\<close> for none, and a caller that uses it
  (the main loop, for the sampling handler) has undefined behaviour, one that drops it has not. Error codes are values of \<open>dt_err\<close>.
  Integers keep their width (\<open>u8\<close>, \<open>u16\<close>, \<open>u32\<close>, \<open>u64\<close> words); flags that only hold truth values are
  bools. Calls into the SDK, lwIP and the allocator are parameters: an \<open>*_env\<close> record holds
  the results of the calls a function makes (also the failing ones), and the predicates \<open>*_ok\<close>
  state the documented behaviour a property relies on, such as that flash reads back what
  was programmed or that \<open>pbuf_copy_partial\<close> copies. Calls with an effect outside the
  device are recorded in a list in their order.

  \<^bold>\<open>Groups of lemmas.\<close> Functional behaviour of each operation on every branch; refinement
  of the store to an association list; equivalence of the base64 encoder and of the DHCP slot
  choice with reference definitions; round trips (credentials, base64);
  invariants by rule induction over runs (NTP client, device); exact bounds, also those
  the code misses: where the code has undefined behaviour, loses data or truncates, the theorem says
  on which inputs.

  \<^bold>\<open>Loops.\<close> Every loop of the code but two ends after a number of steps given by its data, and is a
  structural recursion or a recursion with a measure (the option search of the DHCP server moves
  by at least two bytes). The endless loops are the main loop, which is \<open>dev_step\<close>, one turn per step,
  and the diagnostic loop of \<open>mqtt_test\<close>, a recursion over the environments of its iterations that
  reports whether it was cancelled or still runs. No fuel is used.

  \<^bold>\<open>Not modelled.\<close> Console output (\<open>printf\<close>), except where its return value is used. Memory
  leaks: blocks other than log lines are freed by their owner or lost, which no operation
  observes. Addresses: a new log line gets an address never used before, so a
  double free is always seen as such, also where an allocator might have reused the address.
  The lifetime of data handed to lwIP without copying (the 400 response of \<open>host.c\<close>), and the missing
  \<open>va_end\<close> where \<open>dlog\<close> gets no memory.
  Preemption inside a handler: a callback runs between two turns of the loop, as one step; the
  locks of the SDK (\<open>cyw43_arch_lwip_begin\<close>) have no effect in the model.
  The watchdog of the TCP poll, the physical flash, radio, bus and pins (parameters).
  The print-only callbacks of the MQTT client. \<open>lwipopts.h\<close>, the CMake files
  and the linker script configure code outside the repository; \<open>src/test\<close> and \<open>src/hw_test\<close>
  are drivers of tests.

  \<^bold>\<open>Plan.\<close> All components of \<open>src/src\<close> are modelled. What may be added: a finer
  interleaving in which a callback preempts a handler, and the connection state of the
  HTTP server and of incoming messages as part of the device's runs.
\<close>

section \<open>A concrete device\<close>

text \<open>A start and turns in which everything succeeds, and a flash sector with credentials.\<close>

definition std_start_env :: start_env where
  "std_start_env = \<lparr>st_hub_loc = ''10.0.0.2'', st_log = (\<lambda>i. log_env_at (of_nat i)), st_cyw43 = 0, st_calloc = True\<rparr>"

definition std_ap_env :: ap_env where
  "std_ap_env = \<lparr>state_calloc = True, dhcp_calloc = True, tcp_new = Some 1, tcp_bind_err = ERR_OK, tcp_listen = Some 2,
     ap_dhcp = dhcp_env_at 0\<rparr>"

definition std_turn_env :: loop_env where
  "std_turn_env = \<lparr>le_flash = (\<lambda>_. std_flash_dev), le_ap = std_ap_env, le_mqtt = std_mqtt_env, le_i2c = (\<lambda>_. bus_bytes 2 5),
     le_ntp = std_ntp_env 5000, le_ntp_log = log_env_at 5, le_err_log = log_env_at 6,
     le_update_log = log_env_at 7\<rparr>"

text \<open>Turns in which the sensor does not come up and the broker takes no message.\<close>

definition bad_turn_env :: loop_env where
  "bad_turn_env = std_turn_env\<lparr>le_i2c := \<lambda>_. bus_broken, le_mqtt := std_mqtt_env\<lparr>publish_err := \<lambda>_ _. ERR_MEM\<rparr>\<rparr>"

definition std_items :: items where
  "std_items = save_creds ''Home'' ''pass'' ''tok'' []"

lemma log_env_at_ok: "unat ms < 10 ^ 13 \<Longrightarrow> log_env_ok (log_env_at ms)"
  by (simp add: log_env_ok_def log_env_at_def)

lemma std_start_ok: "start_ok std_start_env"
  by (simp add: start_ok_def std_start_env_def log_env_at_ok)

lemma std_mqtt_good: "mqtt_env_good std_mqtt_env"
  using std_mqtt_env_ok(1) by (simp add: mqtt_env_good_def) (simp add: std_mqtt_env_def log_env_at_ok)

lemma std_turn_ok: "turn_env_ok std_turn_env"
  using std_flash_dev_ok std_mqtt_good bus_ok(1)[of 2 5]
  by (simp add: turn_env_ok_def std_turn_env_def) (simp add: bus_bytes_def std_ntp_env_def)

lemma std_creds: "cred_value ''Home''" "cred_value ''pass''" "cred_value ''tok''" "http_value ''Home''" "http_value ''pass''" "http_value ''tok''"
  by (simp_all add: cred_value_def special_ch_def http_value_def)

lemma std_store: "cred_store std_items" "store_rep (sector_of std_items) std_items"
proof -
  show c: "cred_store std_items" unfolding std_items_def by (rule cred_store_save[OF cred_store_Nil std_creds(1-3)])
  show "store_rep (sector_of std_items) std_items"
    by (rule store_rep_sector) (use c cred_render_bound[OF c] in \<open>simp_all add: cred_store_def NVS_SIZE_def\<close>)
qed

lemmas std_lookup = save_creds_lookup[of "''Home''" "''pass''" "''tok''" "[]", folded std_items_def]

section \<open>Properties of the device\<close>

text \<open>
  C1 (provision_then_reboot). The whole of provisioning: a device that hosts its access point and receives the three
  credentials over HTTP saves them in the two turns of the main loop that follow, and after
  a power cycle the first turn restores exactly these credentials and goes on to the broker.
\<close>

theorem provision_then_reboot:
  assumes dev: "loop_state (dev_ctx d) = WIFI_CONFIG" "hosting (dev_host d)" "\<not> reset (dev_ctx d)" "\<not> mqtt_initd (dev_ctx d)" "ctx_wf (dev_ctx d)"
    and store: "store_rep (dev_flash d) m" "cred_store m" "\<forall>i. flash_dev_ok (le_flash env2 i)" "\<forall>i. flash_dev_ok (le_flash env3 i)"
    and http: "pbuf_ops_ok ops" "conn_inv c" "con_pcb c = pcb" "tcp_env_ok henv" "tcp_close_err henv = ERR_OK"
      "is_request p hs (provision_body s w t)"
    and val: "http_value s" "http_value w" "http_value t" "cred_value s" "cred_value w" "cred_value t"
    and start: "start_ok senv"
  shows "\<exists>d2 d3 d4. run_events dev_step d [Http henv ops (Some c) pcb (Some p), Turn env1, Turn env2] d2 \<and>
    main_start senv (dev_flash d2) = Some (Inr d3) \<and> dev_step d3 (Turn env3) d4 \<and>
    loop_state (dev_ctx d4) = MQTT_INIT \<and> wifi_configd (dev_ctx d4) \<and> has_creds (dev_ctx d4) s w t"
proof -
  have len: "length s < 64" "length w < 64" "length t < 64"
    using val(4-6) esc_counts_length[of s] esc_counts_length[of w] esc_counts_length[of t] by (auto simp: cred_value_def)
  from recv_provisions[OF http dev(5) val(1-3) len] obtain ctx' where
    r: "tcp_server_recv henv ops (dev_ctx d) (Some c) pcb (Some p) =
        Some (tcp_write_err henv, ctx', None, [Tcp_write pcb http_ok, Tcp_clear_callbacks pcb, Tcp_close pcb])"
      "wifi_configd ctx'" "has_cstring (wifi_ssid ctx') s" "has_cstring (wifi_pass ctx') w" "has_cstring (prv_token ctx') t"
      "loop_state ctx' = loop_state (dev_ctx d)" by blast
  have f: "mqtt_initd ctx' = mqtt_initd (dev_ctx d)" "reset ctx' = reset (dev_ctx d)"
    using recv_ctx[OF r(1)] parse_frame by fastforce+
  let ?d1 = "d\<lparr>dev_ctx := ctx'\<rparr>"
  have 1: "dev_step d (Http henv ops (Some c) pcb (Some p)) ?d1" by (rule step_http[OF r(1)])
  have h: "has_creds (dev_ctx ?d1) s w t" using r(3-5) by (simp add: has_creds_def has_cstring_def)
  have "loop_state (dev_ctx ?d1) = WIFI_CONFIG" "hosting (dev_host ?d1)" "wifi_configd (dev_ctx ?d1)"
    "\<not> reset (dev_ctx ?d1)" "\<not> online (dev_ctx ?d1)" "store_rep (dev_flash ?d1) m"
    using dev store(1) r(2,6) f by (simp_all add: online_def)
  from save_turns[OF this store(2) _ h val(4-6), of env2 env1] store(3) obtain da ca d2 cb where
    t: "loop_turn env1 ?d1 = Some (da, ca)" "loop_turn env2 da = Some (d2, cb)" "store_rep (dev_flash d2) (save_creds s w t m)" by blast
  have run: "run_events dev_step d [Http henv ops (Some c) pcb (Some p), Turn env1, Turn env2] d2"
    using 1 step_turn[OF t(1)] step_turn[OF t(2)] by auto
  from start_runs[OF start, of "dev_flash d2"] obtain d3 where d3: "main_start senv (dev_flash d2) = Some (Inr d3)" by blast
  note fresh = start_fresh[OF d3]
  from boot_with_creds[where env = env3, OF fresh(1) _ _ save_creds_lookup val(4-6)] t(3) fresh(2) store(4) obtain d4 c4 where
    "loop_turn env3 d3 = Some (d4, c4)" "loop_state (dev_ctx d4) = MQTT_INIT" "has_creds (dev_ctx d4) s w t" "wifi_configd (dev_ctx d4)"
    by metis
  with run d3 step_turn show ?thesis by blast
qed

text \<open>A device that waits for its credentials.\<close>

definition waiting_device :: device where
  "waiting_device = \<lparr>dev_ctx = zero_ctx\<lparr>loop_state := WIFI_CONFIG, flash_initd := True\<rparr>, dev_heap = empty_heap,
     dev_flash = replicate NVS_SIZE NUL, dev_host = \<lparr>hosting = True, ap_server = None, ap_leases = None\<rparr>,
     dev_inpub = inpub_start\<rparr>"

theorem provision_then_reboot_witness:
  "\<exists>d2 d3 d4. run_events dev_step waiting_device
      [Http std_tcp_env std_pbuf (Some std_conn) 5 (Some (http_request ''Home'' ''pass'' ''tok'')), Turn std_turn_env, Turn std_turn_env] d2 \<and>
    main_start std_start_env (dev_flash d2) = Some (Inr d3) \<and> dev_step d3 (Turn std_turn_env) d4 \<and>
    loop_state (dev_ctx d4) = MQTT_INIT \<and> has_creds (dev_ctx d4) ''Home'' ''pass'' ''tok''"
proof -
  have d: "loop_state (dev_ctx waiting_device) = WIFI_CONFIG" "hosting (dev_host waiting_device)" "\<not> reset (dev_ctx waiting_device)"
    "\<not> mqtt_initd (dev_ctx waiting_device)" "ctx_wf (dev_ctx waiting_device)" "store_rep (dev_flash waiting_device) []"
    using ctx_wf_zero store_rep_empty by (simp_all add: waiting_device_def ctx_wf_def) (simp_all add: zero_ctx_def)
  have f: "\<forall>i. flash_dev_ok (le_flash std_turn_env i)" "tcp_close_err std_tcp_env = ERR_OK"
    using std_turn_ok by (simp_all add: turn_env_ok_def std_tcp_env_def)
  from provision_then_reboot[OF d cred_store_Nil f(1,1) std_pbuf_ok std_http_ok(2,3,1) f(2)
      http_request_ok[OF std_creds(4-6)] std_creds(4-6,1-3) std_start_ok] show ?thesis by blast
qed

text \<open>
  C2 (device_invariant). In every state the device can reach, whatever the environment does and in whatever order turns,
  timer, requests, packets and clock events come: the buffers of the context keep their sizes
  and terminators, the loop state is one of the table and presupposes the flags of the stages
  before it, the NTP client has an alarm only while a request is out, the lease table is well
  formed, and no reset is ever requested (the main loop never polls the button).
\<close>

theorem device_invariant:
  assumes "reachable d"
  shows "ctx_wf (dev_ctx d) \<and> stage_inv (dev_ctx d) \<and> \<not> reset (dev_ctx d) \<and>
    (\<forall>st. ntp_state (dev_ctx d) = Some st \<longrightarrow> ntp_inv st) \<and>
    (\<forall>srv. ap_leases (dev_host d) = Some srv \<longrightarrow> dhcp_wf srv)"
  using device.reaches_inv[OF assms] by (simp add: dev_inv_def ntp_fine_def)

theorem device_invariant_witness:
  "\<exists>d. main_start std_start_env (sector_of std_items) = Some (Inr d) \<and> ctx_wf (dev_ctx d) \<and> stage_inv (dev_ctx d)"
proof -
  from start_runs[OF std_start_ok, of "sector_of std_items"] obtain d where
    d: "main_start std_start_env (sector_of std_items) = Some (Inr d)" by blast
  then have "reachable d" by (intro reaches_start) (auto simp: dev_started_def)
  from device_invariant[OF this] d show ?thesis by blast
qed

text \<open>
  C6 (progress_never_lost). Along any run from a reachable state the stages reached are never lost, and a log slot, once
  filled, keeps its pointer for good: nothing ever empties the log.
\<close>

theorem progress_never_lost:
  assumes "reachable d" "run_events dev_step d evs d'"
  shows "(wifi_configd (dev_ctx d) \<longrightarrow> wifi_configd (dev_ctx d')) \<and> (mqtt_initd (dev_ctx d) \<longrightarrow> mqtt_initd (dev_ctx d')) \<and>
    (sense_initd (dev_ctx d) \<longrightarrow> sense_initd (dev_ctx d')) \<and> (ntp_syncd (dev_ctx d) \<longrightarrow> ntp_syncd (dev_ctx d')) \<and>
    (\<forall>i p. i < 16 \<longrightarrow> logdump (dev_ctx d) ! i = Some p \<longrightarrow> logdump (dev_ctx d') ! i = Some p)"
proof -
  have inv: "dev_inv d" by (rule device.reaches_inv[OF assms(1)])
  then have "length (logdump (dev_ctx d)) = 16" by (simp add: dev_inv_def ctx_wf_def)
  with device_mono.run_rel[OF inv assms(2)] show ?thesis by (auto simp: dev_mono_def slots_kept_def)
qed

theorem progress_never_lost_witness:
  "\<exists>d d'. main_start std_start_env (sector_of std_items) = Some (Inr d) \<and> run_events dev_step d [Timer] d' \<and>
     (\<forall>i p. i < 16 \<longrightarrow> logdump (dev_ctx d) ! i = Some p \<longrightarrow> logdump (dev_ctx d') ! i = Some p)"
proof -
  from start_runs[OF std_start_ok, of "sector_of std_items"] obtain d where
    d: "main_start std_start_env (sector_of std_items) = Some (Inr d)" by blast
  then have r: "reachable d" by (intro reaches_start) (auto simp: dev_started_def)
  obtain ctx' where "sample_rate_update (dev_ctx d) = (True, ctx')" by (simp add: sample_rate_update_def)
  from step_timer[OF this] have run: "run_events dev_step d [Timer] (d\<lparr>dev_ctx := ctx'\<rparr>)" by simp
  from progress_never_lost[OF r run] d run show ?thesis by blast
qed

lemma dump_never_completes:
  assumes "main_start senv fl = Some (Inr d0)" "log_calloc (st_log senv 0)" "run_events dev_step d0 evs d"
    and "loop_state (dev_ctx d) = LOGDUMP" "payload_malloc (le_mqtt env)"
  shows "loop_turn env d = None"
proof -
  have st: "dev_started d0" using assms(1) by (auto simp: dev_started_def)
  from start_fills_slot[OF assms(1,2)] obtain p where p: "logdump (dev_ctx d0) ! 0 = Some p" by blast
  have inv: "dev_inv d0" by (rule dev_inv_start[OF st])
  then have "length (logdump (dev_ctx d0)) = 16" by (simp add: dev_inv_def ctx_wf_def)
  with device_mono.run_rel[OF inv assms(3)] p have "logdump (dev_ctx d) ! 0 = Some p" by (auto simp: dev_mono_def slots_kept_def)
  from turn_at_logdump[OF device.run_from_start[OF st assms(3)] assms(4) this assms(5)] show ?thesis .
qed


lemma std_reply: "server_reply (ntp_answer 1700000000)"
  by (simp add: server_reply_def ntp_answer_def NTP_MSG_LEN_def be32_of_def)


text \<open>
  C5 (logdump_turn_undefined). More generally, once the log line of the start was stored, a turn at the log dump can never
  complete on any run of the device: the handler frees the lines and \<open>update_state\<close> frees
  them again (or a line freed earlier is read).
\<close>

theorem logdump_turn_undefined:
  assumes "main_start senv fl = Some (Inr d0)" "log_calloc (st_log senv 0)" "run_events dev_step d0 evs d"
    and "loop_state (dev_ctx d) = LOGDUMP" "payload_malloc (le_mqtt env)"
  shows "\<nexists>d'. dev_step d (Turn env) d'"
  using dump_never_completes[OF assms] by (simp add: dev_step_Turn)

lemma bad_turn: "i2c_init_baud (le_i2c bad_turn_env 0) \<noteq> 100000" "log_env_ok (le_err_log bad_turn_env)"
  "mqtt_env_ok (le_mqtt bad_turn_env)" "payload_malloc (le_mqtt bad_turn_env)"
  "\<forall>t m. publish_err (le_mqtt bad_turn_env) t m \<noteq> ERR_OK"
  using std_mqtt_env_ok(1)
  by (simp_all add: bad_turn_env_def std_turn_env_def bus_broken_def log_env_at_ok mqtt_env_ok_def)
     (simp_all add: std_mqtt_env_def)

theorem logdump_turn_undefined_witness:
  "\<exists>d0 evs d. main_start std_start_env (sector_of std_items) = Some (Inr d0) \<and> run_events dev_step d0 evs d \<and>
     loop_state (dev_ctx d) = LOGDUMP \<and> (\<nexists>d'. dev_step d (Turn std_turn_env) d')"
proof -
  from logdump_reached[OF std_start_ok std_turn_ok std_reply std_store(2) std_lookup std_creds(1-3) _ bad_turn]
  obtain d0 evs d where d: "main_start std_start_env (sector_of std_items) = Some (Inr d0)"
    "run_events dev_step d0 evs d" "loop_state (dev_ctx d) = LOGDUMP" by auto
  have "log_calloc (st_log std_start_env 0)" "payload_malloc (le_mqtt std_turn_env)"
    by (simp_all add: std_start_env_def log_env_at_def std_turn_env_def std_mqtt_env_def)
  from logdump_turn_undefined[OF d(1) this(1) d(2,3) this(2)] d show ?thesis by blast
qed

text \<open>
  C7 (boot_blank_flash). A device with erased flash formats the sector at its first turn and goes on to the access point.
\<close>

theorem boot_blank_flash:
  assumes "main_start senv (replicate NVS_SIZE (CHR 0xFF)) = Some (Inr d)" "\<forall>i. flash_dev_ok (le_flash env i)"
  shows "\<exists>d'. dev_step d (Turn env) d' \<and> loop_state (dev_ctx d') = WIFI_CONFIG \<and> \<not> wifi_configd (dev_ctx d') \<and>
    store_rep (dev_flash d') []"
  using boot_blank[OF start_fresh(1,2)[OF assms(1)]] assms(2) step_turn by blast

theorem boot_blank_flash_witness:
  "\<exists>d d'. main_start std_start_env (replicate NVS_SIZE (CHR 0xFF)) = Some (Inr d) \<and> dev_step d (Turn std_turn_env) d' \<and>
     loop_state (dev_ctx d') = WIFI_CONFIG"
proof -
  from start_runs[OF std_start_ok, of "replicate NVS_SIZE (CHR 0xFF)"] obtain d where
    d: "main_start std_start_env (replicate NVS_SIZE (CHR 0xFF)) = Some (Inr d)" by blast
  have "\<forall>i. flash_dev_ok (le_flash std_turn_env i)" using std_turn_ok by (simp add: turn_env_ok_def)
  from boot_blank_flash[OF d this] d show ?thesis by blast
qed



end
